theory Spec2Isabelle
  imports Complex_Main
begin

section \<open>The document\<close>

text \<open>
  \<^verbatim>\<open>js/main.js\<close> works on the elements of one HTML page. An element is modelled with the
  properties the script reads or writes: its tag name, its attributes (\<^verbatim>\<open>id\<close>, \<^verbatim>\<open>href\<close> and
  the others; \<^verbatim>\<open>class\<close> and \<^verbatim>\<open>style\<close> are kept apart, as the class list and the
  background colour),
  its class list, its text content, the geometry \<^verbatim>\<open>offsetTop\<close>/\<^verbatim>\<open>offsetHeight\<close> and
  \<^verbatim>\<open>style.backgroundColor\<close>. The document is the list of the elements that the page has
  when the script starts, in document order, and an element is referred to by its
  position in that list. The script creates no element, so a position found by a lookup
  stays the position of that element.

  Two things of the page are not in this list, and no statement below rests on them.
  The list is flat: which element encloses which is not recorded. And \<open>textContent\<close> is
  kept per element, which is right for the element that is written and read, as the
  typewriter does with one and the same element; but assigning the text of an element
  replaces its child nodes by one text node, which takes child elements it may have out
  of the page and changes the text of every element that encloses it. What \<open>textContent\<close>
  holds for any other element than the one written is therefore never used. The geometry
  is the layout the browser computes; the script only reads it.
\<close>

record element =
  tagName :: string
  attributes :: "(string \<times> string) list"
  classList :: "string list"
  textContent :: string
  offsetTop :: int
  offsetHeight :: int
  backgroundColor :: string

type_synonym document = "element list"

definition getAttribute :: "string \<Rightarrow> element \<Rightarrow> string option" where
  "getAttribute name e = map_of (attributes e) name"

subsection \<open>\<^verbatim>\<open>classList\<close>: a token list without duplicates\<close>

definition classList_contains :: "string \<Rightarrow> string list \<Rightarrow> bool" where
  "classList_contains c cl = (c \<in> set cl)"

definition classList_add :: "string \<Rightarrow> string list \<Rightarrow> string list" where
  "classList_add c cl = (if c \<in> set cl then cl else cl @ [c])"

definition classList_remove :: "string \<Rightarrow> string list \<Rightarrow> string list" where
  "classList_remove c cl = filter (\<lambda>x. x \<noteq> c) cl"

definition classList_toggle :: "string \<Rightarrow> string list \<Rightarrow> string list" where
  "classList_toggle c cl = (if c \<in> set cl then classList_remove c cl else cl @ [c])"

text \<open>
  \<^verbatim>\<open>el.classList.f(...)\<close>, \<^verbatim>\<open>el.textContent += c\<close> and \<^verbatim>\<open>el.style.backgroundColor = v\<close>
  change one property of the element at position \<open>i\<close>. What the text assignment does to
  the elements around the one written is not modelled, as said above.
\<close>

definition update_classes :: "nat \<Rightarrow> (string list \<Rightarrow> string list) \<Rightarrow> document \<Rightarrow> document" where
  "update_classes i f d =
     (if i < length d then d[i := (d ! i)\<lparr>classList := f (classList (d ! i))\<rparr>] else d)"

definition append_text :: "nat \<Rightarrow> string \<Rightarrow> document \<Rightarrow> document" where
  "append_text i t d =
     (if i < length d then d[i := (d ! i)\<lparr>textContent := textContent (d ! i) @ t\<rparr>] else d)"

definition set_backgroundColor :: "nat \<Rightarrow> string \<Rightarrow> document \<Rightarrow> document" where
  "set_backgroundColor i v d =
     (if i < length d then d[i := (d ! i)\<lparr>backgroundColor := v\<rparr>] else d)"

definition has_class :: "string \<Rightarrow> document \<Rightarrow> nat \<Rightarrow> bool" where
  "has_class c d i = (i < length d \<and> classList_contains c (classList (d ! i)))"

subsection \<open>Lookups\<close>

text \<open>
  \<^verbatim>\<open>getElementById\<close> and \<^verbatim>\<open>querySelector\<close> return the first match in document order or
  \<^verbatim>\<open>null\<close> (\<open>None\<close>); \<^verbatim>\<open>querySelectorAll\<close> returns every match, in document order.
\<close>

fun first_index :: "('a \<Rightarrow> bool) \<Rightarrow> 'a list \<Rightarrow> nat option" where
  "first_index P [] = None"
| "first_index P (x # xs) = (if P x then Some 0 else map_option Suc (first_index P xs))"

definition all_indices :: "('a \<Rightarrow> bool) \<Rightarrow> 'a list \<Rightarrow> nat list" where
  "all_indices P xs = filter (\<lambda>i. P (xs ! i)) [0..<length xs]"

definition has_id :: "string \<Rightarrow> element \<Rightarrow> bool" where
  "has_id ident e = (getAttribute ''id'' e = Some ident)"

definition getElementById :: "string \<Rightarrow> document \<Rightarrow> nat option" where
  "getElementById ident d = first_index (has_id ident) d"

text \<open>The fixed selectors of the script.\<close>

definition is_nav_link :: "element \<Rightarrow> bool" where
  \<comment> \<open>\<^verbatim>\<open>.nav-link\<close>\<close>
  "is_nav_link e = classList_contains ''nav-link'' (classList e)"

definition is_fade_in :: "element \<Rightarrow> bool" where
  \<comment> \<open>\<^verbatim>\<open>.fade-in\<close>\<close>
  "is_fade_in e = classList_contains ''fade-in'' (classList e)"

definition is_hash_anchor :: "element \<Rightarrow> bool" where
  \<comment> \<open>\<^verbatim>\<open>a[href^="#"]\<close>\<close>
  "is_hash_anchor e =
     (tagName e = ''a'' \<and>
      (case getAttribute ''href'' e of None \<Rightarrow> False | Some h \<Rightarrow> take 1 h = ''#''))"

definition is_section_with_id :: "element \<Rightarrow> bool" where
  \<comment> \<open>\<^verbatim>\<open>section[id]\<close>\<close>
  "is_section_with_id e = (tagName e = ''section'' \<and> getAttribute ''id'' e \<noteq> None)"

section \<open>The state of the page\<close>

text \<open>
  The DOMContentLoaded handler looks its elements up once and keeps them in constants
  that every later handler closes over.
\<close>

record bindings =
  navToggle :: "nat option"
  navMenu :: "nat option"
  navLinks :: "nat list"
  smoothScrollLinks :: "nat list"
  fadeElements :: "nat list"
  typedNameElement :: "nat option"
  sections :: "nat list"
  navLinksForHighlight :: "nat list"
  navbar :: "nat option"

definition bindings_of :: "document \<Rightarrow> bindings" where
  "bindings_of d =
     \<lparr>navToggle = getElementById ''nav-toggle'' d,
      navMenu = getElementById ''nav-menu'' d,
      navLinks = all_indices is_nav_link d,
      smoothScrollLinks = all_indices is_hash_anchor d,
      fadeElements = all_indices is_fade_in d,
      typedNameElement = getElementById ''typed-name'' d,
      sections = all_indices is_section_with_id d,
      navLinksForHighlight = all_indices is_nav_link d,
      navbar = getElementById ''navbar'' d\<rparr>"

text \<open>
  What changes while the page lives: the DOM, the two \<^verbatim>\<open>let\<close> variables \<^verbatim>\<open>charIndex\<close> and
  \<^verbatim>\<open>scrollTimeout\<close>, and what the browser keeps for the script: the targets the
  intersection observer watches, the pending animation-frame requests (each one a call
  of \<^verbatim>\<open>highlightNavLink\<close>) with the last handle given out, the delays of the pending
  \<^verbatim>\<open>setTimeout(typeCharacter, delay)\<close> timers, and the \<^verbatim>\<open>scrollIntoView\<close> calls received.
\<close>

datatype scroll_behavior = Smooth | Instant | Auto
datatype scroll_block = Start | Center | End | Nearest

record page =
  dom :: document
  charIndex :: nat
  scrollTimeout :: "nat option"
  observed :: "nat list"
  frame_requests :: "nat list"
  last_request :: nat
  timeouts :: "int list"
  scrollIntoView_calls :: "(nat \<times> scroll_behavior \<times> scroll_block) list"

text \<open>
  A handler either returns or throws; what it changed before throwing stays changed.
\<close>

datatype error = TypeError | SyntaxError

datatype completion = Normal page | Throw error page

fun state_of :: "completion \<Rightarrow> page" where
  "state_of (Normal s) = s"
| "state_of (Throw e s) = s"

fun returned :: "completion \<Rightarrow> bool" where
  "returned (Normal s) = True"
| "returned (Throw e s) = False"

text \<open>
  \<^verbatim>\<open>document.querySelector\<close> is called twice with a selector built at run time. The
  browser's selector engine is a parameter: it takes the selector text and the document,
  and returns the first match, \<^verbatim>\<open>null\<close>, or throws \<^verbatim>\<open>SyntaxError\<close> on text that is not a
  selector.
\<close>

type_synonym selector_engine = "string \<Rightarrow> document \<Rightarrow> error + nat option"

text \<open>A value that may be \<^verbatim>\<open>null\<close>, turned into a string as JavaScript does.\<close>

definition js_string :: "string option \<Rightarrow> string" where
  "js_string v = (case v of None \<Rightarrow> ''null'' | Some t \<Rightarrow> t)"

section \<open>1. Mobile navigation toggle\<close>

text \<open>
  Both handlers are attached inside \<^verbatim>\<open>if (navToggle && navMenu)\<close>, so they run with the two
  elements \<open>t\<close> and \<open>m\<close> at hand.
\<close>

definition navToggle_click :: "nat \<Rightarrow> nat \<Rightarrow> page \<Rightarrow> page" where
  "navToggle_click t m s =
     s\<lparr>dom := update_classes m (classList_toggle ''active'')
                (update_classes t (classList_toggle ''active'') (dom s))\<rparr>"

definition navLink_click :: "nat \<Rightarrow> nat \<Rightarrow> page \<Rightarrow> page" where
  "navLink_click t m s =
     s\<lparr>dom := update_classes m (classList_remove ''active'')
                (update_classes t (classList_remove ''active'') (dom s))\<rparr>"

section \<open>2. Smooth scroll for anchor links\<close>

text \<open>
  The click handler of the anchor at position \<open>a\<close> (\<^verbatim>\<open>this\<close> in the source). The first
  component of the result is whether \<^verbatim>\<open>e.preventDefault()\<close> was called; a call of
  \<^verbatim>\<open>scrollIntoView\<close> is recorded with its target and its two options.
\<close>

definition anchor_click :: "selector_engine \<Rightarrow> nat \<Rightarrow> page \<Rightarrow> bool \<times> completion" where
  "anchor_click qs a s =
     (let href = getAttribute ''href'' (dom s ! a) in
      if href \<noteq> Some ''#'' then
        (True,
         case qs (js_string href) (dom s) of
           Inl err \<Rightarrow> Throw err s
         | Inr None \<Rightarrow> Normal s
         | Inr (Some targetElement) \<Rightarrow>
             Normal (s\<lparr>scrollIntoView_calls :=
                          scrollIntoView_calls s @ [(targetElement, Smooth, Start)]\<rparr>))
      else (False, Normal s))"

section \<open>3. Fade-in animations on scroll\<close>

record entry =
  target :: nat
  isIntersecting :: bool

text \<open>The observer's callback; \<^verbatim>\<open>unobserve\<close> takes the target off the watched list.\<close>

fun fadeObserver_callback :: "entry list \<Rightarrow> page \<Rightarrow> page" where
  "fadeObserver_callback [] s = s"
| "fadeObserver_callback (e # entries) s =
     fadeObserver_callback entries
       (if isIntersecting e
        then s\<lparr>dom := update_classes (target e) (classList_add ''visible'') (dom s),
               observed := removeAll (target e) (observed s)\<rparr>
        else s)"

text \<open>\<^verbatim>\<open>fadeObserver.observe(element)\<close>: a target already watched is not added again.\<close>

definition observe :: "nat \<Rightarrow> page \<Rightarrow> page" where
  "observe el s = (if el \<in> set (observed s) then s else s\<lparr>observed := observed s @ [el]\<rparr>)"

text \<open>
  The two branches of \<^verbatim>\<open>if ('IntersectionObserver' in window)\<close>; \<open>available\<close> is the value
  of that test.
\<close>

definition setup_fade :: "bool \<Rightarrow> nat list \<Rightarrow> page \<Rightarrow> page" where
  "setup_fade available els s =
     (if available then fold observe els s
      else s\<lparr>dom := fold (\<lambda>el. update_classes el (classList_add ''visible'')) els (dom s)\<rparr>)"

section \<open>4. Typing effect for hero name\<close>

subsection \<open>Numbers\<close>

text \<open>
  \<^verbatim>\<open>Math.random()\<close> returns a double in \<open>[0, 1)\<close>. A non-negative finite double is
  \<open>significand * 2 ^ exponent\<close> with a significand below \<open>2 ^ 53\<close> and an exponent of at
  least \<open>-1074\<close>.
\<close>

record double =
  significand :: nat
  exponent :: int

definition is_double :: "double \<Rightarrow> bool" where
  "is_double x = (significand x < 2 ^ 53 \<and> - 1074 \<le> exponent x)"

definition below_one :: "double \<Rightarrow> bool" where
  "below_one x =
     (significand x = 0 \<or> (exponent x < 0 \<and> significand x < 2 ^ nat (- exponent x)))"

definition is_random :: "double \<Rightarrow> bool" where
  \<comment> \<open>the values \<^verbatim>\<open>Math.random()\<close> may return\<close>
  "is_random x = (is_double x \<and> below_one x)"

definition double_value :: "double \<Rightarrow> real" where
  "double_value x = real (significand x) * 2 powr real_of_int (exponent x)"

text \<open>
  The product of a double and a small natural number, as IEEE 754 computes it: the exact
  product, rounded to 53 significant bits, ties to even. \<open>excess_bits n\<close> is the number
  of low bits that \<open>n\<close> has beyond 53. Where rounding carries, the significand of the
  result is \<open>2 ^ 53\<close> itself, which is a double all the same, with the exponent one
  higher.
\<close>

fun excess_bits :: "nat \<Rightarrow> nat" where
  "excess_bits n = (if n < 2 ^ 53 then 0 else Suc (excess_bits (n div 2)))"

declare excess_bits.simps [simp del]

definition round_half_even :: "nat \<Rightarrow> nat \<Rightarrow> nat" where
  \<comment> \<open>\<open>n / 2 ^ k\<close> rounded to the nearest natural number, ties to even\<close>
  "round_half_even n k =
     (let q = n div 2 ^ k; r = 2 * (n mod 2 ^ k) in
      if r < 2 ^ k then q
      else if 2 ^ k < r then q + 1
      else if even q then q else q + 1)"

definition js_times :: "double \<Rightarrow> nat \<Rightarrow> double" where
  "js_times x n =
     (let p = significand x * n; k = excess_bits p in
      \<lparr>significand = round_half_even p k, exponent = exponent x + int k\<rparr>)"

definition js_floor :: "double \<Rightarrow> int" where
  \<comment> \<open>\<^verbatim>\<open>Math.floor\<close>\<close>
  "js_floor x =
     (if 0 \<le> exponent x then int (significand x) * 2 ^ nat (exponent x)
      else int (significand x) div 2 ^ nat (- exponent x))"

definition delay_of :: "double \<Rightarrow> int" where
  \<comment> \<open>\<^verbatim>\<open>Math.floor(Math.random() * 70) + 80\<close>, for the value \<open>r\<close> of \<^verbatim>\<open>Math.random()\<close>\<close>
  "delay_of r = js_floor (js_times r 70) + 80"

subsection \<open>The typewriter\<close>

definition nameToType :: string where
  "nameToType = ''Noor Elahi Ali Shibly''"

text \<open>
  \<^verbatim>\<open>typeCharacter\<close>, with \<open>el\<close> the constant \<^verbatim>\<open>typedNameElement\<close> and \<open>r\<close> the value that
  \<^verbatim>\<open>Math.random()\<close> returns if it is called.
\<close>

definition typeCharacter :: "nat option \<Rightarrow> double \<Rightarrow> page \<Rightarrow> page" where
  "typeCharacter el r s =
     (case el of
        None \<Rightarrow> s
      | Some e \<Rightarrow>
          if charIndex s < length nameToType then
            s\<lparr>dom := append_text e [nameToType ! charIndex s] (dom s),
              charIndex := charIndex s + 1,
              timeouts := timeouts s @ [delay_of r]\<rparr>
          else s)"

text \<open>
  A pending timer comes due: the browser takes it off its list and calls
  \<^verbatim>\<open>typeCharacter\<close>. Without a pending timer nothing is called.
\<close>

definition timer_fires :: "nat option \<Rightarrow> double \<Rightarrow> page \<Rightarrow> page" where
  "timer_fires el r s =
     (case timeouts s of
        [] \<Rightarrow> s
      | t # ts \<Rightarrow> typeCharacter el r (s\<lparr>timeouts := ts\<rparr>))"

text \<open>
  The whole animation: timers fire, one after the other, until none is pending.
  \<open>rnd n\<close> is the value of \<^verbatim>\<open>Math.random()\<close> in the \<open>n\<close>-th call of \<^verbatim>\<open>typeCharacter\<close>.
\<close>

function run_timers :: "nat option \<Rightarrow> (nat \<Rightarrow> double) \<Rightarrow> nat \<Rightarrow> page \<Rightarrow> page" where
  "run_timers el rnd n s =
     (if timeouts s = [] then s else run_timers el rnd (Suc n) (timer_fires el (rnd n) s))"
  by pat_completeness auto

termination
proof (relation "measure (\<lambda>(el, rnd, n, s).
                   2 * (length nameToType - charIndex s) + length (timeouts s))")
  show "wf (measure (\<lambda>(el, rnd, n, s).
              2 * (length nameToType - charIndex s) + length (timeouts s)))"
    by simp
next
  fix el :: "nat option" and rnd :: "nat \<Rightarrow> double" and n :: nat and s :: page
  assume "timeouts s \<noteq> []"
  then obtain t ts where ts: "timeouts s = t # ts"
    by (cases "timeouts s") auto
  have "2 * (length nameToType - charIndex (timer_fires el (rnd n) s))
          + length (timeouts (timer_fires el (rnd n) s))
        < 2 * (length nameToType - charIndex s) + length (timeouts s)"
    using ts by (cases el) (auto simp: timer_fires_def typeCharacter_def)
  then show "((el, rnd, Suc n, timer_fires el (rnd n) s), (el, rnd, n, s))
             \<in> measure (\<lambda>(el, rnd, n, s).
                  2 * (length nameToType - charIndex s) + length (timeouts s))"
    by simp
qed

declare run_timers.simps [simp del]

text \<open>The page after \<open>k\<close> timers have fired, the first with the random value \<open>rnd n\<close>.\<close>

fun timers_fired :: "nat option \<Rightarrow> (nat \<Rightarrow> double) \<Rightarrow> nat \<Rightarrow> nat \<Rightarrow> page \<Rightarrow> page" where
  "timers_fired el rnd n 0 s = s"
| "timers_fired el rnd n (Suc k) s = timers_fired el rnd (Suc n) k (timer_fires el (rnd n) s)"

section \<open>5. Active nav link highlighting\<close>

definition nav_link_selector :: "string \<Rightarrow> string" where
  \<comment> \<open>the template literal of \<^verbatim>\<open>highlightNavLink\<close>\<close>
  \<open>nav_link_selector sectionId = ''.nav-link[href="#'' @ sectionId @ ''"]''\<close>

definition remove_active :: "nat list \<Rightarrow> document \<Rightarrow> document" where
  \<comment> \<open>\<^verbatim>\<open>navLinksForHighlight.forEach(link => link.classList.remove('active'))\<close>\<close>
  "remove_active links d = fold (\<lambda>link. update_classes link (classList_remove ''active'')) links d"

definition in_section :: "real \<Rightarrow> element \<Rightarrow> bool" where
  \<comment> \<open>\<^verbatim>\<open>scrollPosition >= sectionTop && scrollPosition < sectionTop + sectionHeight\<close>\<close>
  "in_section scrollPosition section =
     (real_of_int (offsetTop section) \<le> scrollPosition
      \<and> scrollPosition < real_of_int (offsetTop section + offsetHeight section))"

text \<open>
  The body of \<^verbatim>\<open>sections.forEach\<close>, for the sections still to visit. \<open>links\<close> is
  \<^verbatim>\<open>navLinksForHighlight\<close> and \<open>scrollPosition\<close> the sum \<^verbatim>\<open>window.scrollY + 100\<close>; the scroll
  offset is a real number here, the offsets of an element are integers, as in the DOM.
\<close>

fun highlight_sections ::
  "selector_engine \<Rightarrow> nat list \<Rightarrow> real \<Rightarrow> nat list \<Rightarrow> page \<Rightarrow> completion" where
  "highlight_sections qs links scrollPosition [] s = Normal s"
| "highlight_sections qs links scrollPosition (section # rest) s =
     (let sectionId = js_string (getAttribute ''id'' (dom s ! section)) in
      if in_section scrollPosition (dom s ! section)
      then
        (let cleared = remove_active links (dom s) in
         case qs (nav_link_selector sectionId) cleared of
           Inl err \<Rightarrow> Throw err (s\<lparr>dom := cleared\<rparr>)
         | Inr None \<Rightarrow>
             highlight_sections qs links scrollPosition rest (s\<lparr>dom := cleared\<rparr>)
         | Inr (Some activeLink) \<Rightarrow>
             highlight_sections qs links scrollPosition rest
               (s\<lparr>dom := update_classes activeLink (classList_add ''active'') cleared\<rparr>))
      else highlight_sections qs links scrollPosition rest s)"

definition highlightNavLink :: "selector_engine \<Rightarrow> bindings \<Rightarrow> real \<Rightarrow> page \<Rightarrow> completion" where
  \<comment> \<open>\<open>scrollY\<close> is the value of \<^verbatim>\<open>window.scrollY\<close> when the function runs\<close>
  "highlightNavLink qs b scrollY s =
     highlight_sections qs (navLinksForHighlight b) (scrollY + 100) (sections b) s"

text \<open>
  The scroll listener of line 159. A handle is a positive number, so \<^verbatim>\<open>if (scrollTimeout)\<close>
  holds once a handle has been stored.
\<close>

definition cancelAnimationFrame :: "nat \<Rightarrow> page \<Rightarrow> page" where
  "cancelAnimationFrame h s = s\<lparr>frame_requests := removeAll h (frame_requests s)\<rparr>"

definition scroll_listener :: "page \<Rightarrow> page" where
  "scroll_listener s =
     (let s1 = (case scrollTimeout s of
                  None \<Rightarrow> s
                | Some h \<Rightarrow> if h \<noteq> 0 then cancelAnimationFrame h s else s);
          h' = Suc (last_request s1)
      in s1\<lparr>frame_requests := frame_requests s1 @ [h'],
            last_request := h',
            scrollTimeout := Some h'\<rparr>)"

text \<open>
  An animation frame: the browser takes the pending requests, empties its list and calls
  each callback; a callback that throws does not stop the next one.
\<close>

fun run_callbacks :: "selector_engine \<Rightarrow> bindings \<Rightarrow> real \<Rightarrow> nat list \<Rightarrow> page \<Rightarrow> page" where
  "run_callbacks qs b scrollY [] s = s"
| "run_callbacks qs b scrollY (h # hs) s =
     run_callbacks qs b scrollY hs (state_of (highlightNavLink qs b scrollY s))"

definition animation_frame :: "selector_engine \<Rightarrow> bindings \<Rightarrow> real \<Rightarrow> page \<Rightarrow> page" where
  "animation_frame qs b scrollY s =
     run_callbacks qs b scrollY (frame_requests s) (s\<lparr>frame_requests := []\<rparr>)"

section \<open>6. Navbar background on scroll\<close>

definition handleNavbarScroll :: "nat option \<Rightarrow> real \<Rightarrow> page \<Rightarrow> completion" where
  \<comment> \<open>\<open>nb\<close> is the constant \<^verbatim>\<open>navbar\<close>; reading \<^verbatim>\<open>navbar.style\<close> of \<^verbatim>\<open>null\<close> throws\<close>
  "handleNavbarScroll nb scrollY s =
     (case nb of
        None \<Rightarrow> Throw TypeError s
      | Some n \<Rightarrow>
          Normal (s\<lparr>dom := set_backgroundColor n
                     (if 50 < scrollY then ''rgba(13, 13, 13, 0.98)''
                      else ''rgba(13, 13, 13, 0.95)'') (dom s)\<rparr>))"

section \<open>The DOMContentLoaded handler\<close>

definition initial_page :: "document \<Rightarrow> page" where
  "initial_page d =
     \<lparr>dom = d, charIndex = 0, scrollTimeout = None, observed = [], frame_requests = [],
      last_request = 0, timeouts = [], scrollIntoView_calls = []\<rparr>"

text \<open>
  What the handler does to the page, in the order of the source: the fade-in setup, the
  first timer of the typewriter, and one call of \<^verbatim>\<open>highlightNavLink\<close>. \<open>available\<close> is
  the value of \<^verbatim>\<open>'IntersectionObserver' in window\<close> and \<open>scrollY\<close> that of
  \<^verbatim>\<open>window.scrollY\<close>. Attaching a listener changes nothing here; which listeners are
  attached is \<open>attached\<close> below. When \<^verbatim>\<open>highlightNavLink\<close> throws, section 6 of the script
  is not reached.
\<close>

definition main :: "selector_engine \<Rightarrow> bool \<Rightarrow> real \<Rightarrow> document \<Rightarrow> completion" where
  "main qs available scrollY d =
     (let s0 = initial_page d;
          s1 = setup_fade available (all_indices is_fade_in (dom s0)) s0;
          s2 = s1\<lparr>timeouts := timeouts s1 @ [500]\<rparr>;
          sections = all_indices is_section_with_id (dom s2);
          navLinksForHighlight = all_indices is_nav_link (dom s2)
      in highlight_sections qs navLinksForHighlight (scrollY + 100) sections s2)"

section \<open>Handlers\<close>

text \<open>
  Every function the script hands to the browser, with what the browser passes or lets
  it read: the entries of the observer, the value of \<^verbatim>\<open>Math.random()\<close>, the value of
  \<^verbatim>\<open>window.scrollY\<close>.
\<close>

datatype handler =
    NavToggleClick
  | NavLinkClick nat
  | AnchorClick nat
  | FadeObserverCallback "entry list"
  | TimerFires double
  | ScrollListener
  | AnimationFrame real
  | HandleNavbarScroll real

text \<open>
  \<open>attached b available completed h\<close>: the handler \<open>h\<close> was handed to the browser by the
  DOMContentLoaded handler, where \<open>completed\<close> says that this handler returned.
\<close>

fun attached :: "bindings \<Rightarrow> bool \<Rightarrow> bool \<Rightarrow> handler \<Rightarrow> bool" where
  "attached b available completed NavToggleClick = (navToggle b \<noteq> None \<and> navMenu b \<noteq> None)"
| "attached b available completed (NavLinkClick link) =
     (navToggle b \<noteq> None \<and> navMenu b \<noteq> None \<and> link \<in> set (navLinks b))"
| "attached b available completed (AnchorClick a) = (a \<in> set (smoothScrollLinks b))"
| "attached b available completed (FadeObserverCallback entries) = available"
| "attached b available completed (TimerFires r) = True"
| "attached b available completed ScrollListener = True"
| "attached b available completed (AnimationFrame scrollY) = True"
| "attached b available completed (HandleNavbarScroll scrollY) = completed"

text \<open>
  The browser hands the observer's callback only entries of targets that are watched.
\<close>

definition deliverable :: "entry list \<Rightarrow> page \<Rightarrow> bool" where
  "deliverable entries s = list_all (\<lambda>e. target e \<in> set (observed s)) entries"

fun run_handler :: "selector_engine \<Rightarrow> bindings \<Rightarrow> handler \<Rightarrow> page \<Rightarrow> page" where
  "run_handler qs b NavToggleClick s =
     (case (navToggle b, navMenu b) of
        (Some t, Some m) \<Rightarrow> navToggle_click t m s
      | _ \<Rightarrow> s)"
| "run_handler qs b (NavLinkClick link) s =
     (case (navToggle b, navMenu b) of
        (Some t, Some m) \<Rightarrow> navLink_click t m s
      | _ \<Rightarrow> s)"
| "run_handler qs b (AnchorClick a) s = state_of (snd (anchor_click qs a s))"
| "run_handler qs b (FadeObserverCallback entries) s =
     (if deliverable entries s then fadeObserver_callback entries s else s)"
| "run_handler qs b (TimerFires r) s = timer_fires (typedNameElement b) r s"
| "run_handler qs b ScrollListener s = scroll_listener s"
| "run_handler qs b (AnimationFrame scrollY) s = animation_frame qs b scrollY s"
| "run_handler qs b (HandleNavbarScroll scrollY) s =
     state_of (handleNavbarScroll (navbar b) scrollY s)"

definition run_handlers :: "selector_engine \<Rightarrow> bindings \<Rightarrow> handler list \<Rightarrow> page \<Rightarrow> page" where
  "run_handlers qs b hs s = fold (run_handler qs b) hs s"

text \<open>
  A click on the element at position \<open>i\<close> runs the click listeners of that element in the
  order in which the script attached them: the listener of the toggle (line 24), the
  listener of a nav link (line 33), the listener of a same-page anchor (line 48). The
  listeners of the elements that enclose the one clicked, which the click reaches next,
  are not in the flat document: \<open>click\<close> is the click that reaches no listener of the
  script there.
\<close>

definition click_listeners :: "bindings \<Rightarrow> nat \<Rightarrow> handler list" where
  "click_listeners b i =
     (if navToggle b \<noteq> None \<and> navMenu b \<noteq> None
      then (if navToggle b = Some i then [NavToggleClick] else [])
           @ (if i \<in> set (navLinks b) then [NavLinkClick i] else [])
      else [])
     @ (if i \<in> set (smoothScrollLinks b) then [AnchorClick i] else [])"

definition click :: "selector_engine \<Rightarrow> bindings \<Rightarrow> nat \<Rightarrow> page \<Rightarrow> page" where
  "click qs b i s = run_handlers qs b (click_listeners b i) s"



section \<open>What the handlers leave alone\<close>

text \<open>
  \<open>unchanged_part b d\<close> is what no handler changes of the elements of \<open>d\<close>: the tag name,
  the attributes (apart from \<^verbatim>\<open>class\<close> and \<^verbatim>\<open>style\<close>) and every class but \<^verbatim>\<open>active\<close> and \<^verbatim>\<open>visible\<close> of every element, and the
  background colour of every element but the navbar. The text is left out for every
  element, as writing the text of the typed-name element changes the text of the
  elements around it, and so is the geometry, which the browser lays out anew from the
  classes and the text.
\<close>

definition other_classes :: "string list \<Rightarrow> string list" where
  "other_classes cl = filter (\<lambda>c. c \<noteq> ''active'' \<and> c \<noteq> ''visible'') cl"

definition unchanged_of :: "bindings \<Rightarrow> nat \<Rightarrow> element \<Rightarrow> element" where
  "unchanged_of b i e =
     e\<lparr>classList := other_classes (classList e),
       textContent := [],
       offsetTop := 0,
       offsetHeight := 0,
       backgroundColor := (if navbar b = Some i then [] else backgroundColor e)\<rparr>"

definition unchanged_part :: "bindings \<Rightarrow> document \<Rightarrow> element list" where
  "unchanged_part b d = map (\<lambda>i. unchanged_of b i (d ! i)) [0..<length d]"


text \<open>An element without its class \<^verbatim>\<open>active\<close>, and the nav links that carry it.\<close>

definition without_active :: "element \<Rightarrow> element" where
  "without_active e = e\<lparr>classList := filter (\<lambda>c. c \<noteq> ''active'') (classList e)\<rparr>"

definition active_links :: "nat list \<Rightarrow> document \<Rightarrow> nat list" where
  "active_links links d = filter (has_class ''active'' d) links"

section \<open>A sample page\<close>

text \<open>
  A small page with the elements the script looks for, on which the handlers are run
  below: a navigation bar with its toggle, its menu and two links, the typed name, and
  two sections.
\<close>

definition html :: "string \<Rightarrow> (string \<times> string) list \<Rightarrow> string list \<Rightarrow> int \<Rightarrow> int \<Rightarrow> element" where
  "html tag attrs classes y h =
     \<lparr>tagName = tag, attributes = attrs, classList = classes, textContent = [],
      offsetTop = y, offsetHeight = h, backgroundColor = []\<rparr>"

definition sample_document :: document where
  "sample_document =
     [html ''nav'' [(''id'', ''navbar'')] [''navbar''] 0 60,
      html ''button'' [(''id'', ''nav-toggle'')] [] 10 40,
      html ''ul'' [(''id'', ''nav-menu'')] [''nav-menu''] 60 0,
      html ''a'' [(''href'', ''#home'')] [''nav-link''] 60 20,
      html ''a'' [(''href'', ''#about'')] [''nav-link''] 80 20,
      html ''span'' [(''id'', ''typed-name'')] [] 200 30,
      html ''section'' [(''id'', ''home'')] [''fade-in''] 0 600,
      html ''section'' [(''id'', ''about'')] [''fade-in''] 600 800]"

text \<open>
  A selector engine to run the sample page with. It reads the two forms of selector that
  the script builds, \<^verbatim>\<open>#name\<close> and \<^verbatim>\<open>.nav-link[href="#name"]\<close>, for a name of lower-case
  letters, and answers any other text as it answers text that is no selector.
\<close>

definition plain_name :: "string \<Rightarrow> bool" where
  "plain_name n = (n \<noteq> [] \<and> list_all (\<lambda>c. c \<in> set ''abcdefghijklmnopqrstuvwxyz'') n)"

definition sample_engine :: selector_engine where
  "sample_engine sel d =
     (let name = drop 1 sel; sectionId = take (length sel - 19) (drop 17 sel) in
      if take 1 sel = ''#'' \<and> plain_name name then Inr (getElementById name d)
      else if sel = nav_link_selector sectionId \<and> plain_name sectionId
      then Inr (first_index
                 (\<lambda>e. is_nav_link e \<and> getAttribute ''href'' e = Some (''#'' @ sectionId)) d)
      else Inl SyntaxError)"

text \<open>Values for \<^verbatim>\<open>Math.random()\<close>: the \<open>n\<close>-th is \<open>n / 1024\<close>.\<close>

definition sample_random :: "nat \<Rightarrow> double" where
  "sample_random n = \<lparr>significand = n, exponent = - 10\<rparr>"

text \<open>A page with one section and no navigation bar.\<close>

definition page_without_navbar :: document where
  "page_without_navbar = [html ''section'' [(''id'', ''home'')] [] 0 600]"

text \<open>A page whose toggle is a nav link as well.\<close>

definition page_with_toggle_link :: document where
  "page_with_toggle_link =
     [html ''button'' [(''id'', ''nav-toggle'')] [''nav-link''] 0 40,
      html ''ul'' [(''id'', ''nav-menu'')] [] 40 200]"

text \<open>A page with a section that no nav link points to; its one link starts active.\<close>

definition page_with_unlinked_section :: document where
  "page_with_unlinked_section =
     [html ''a'' [(''href'', ''#home'')] [''nav-link'', ''active''] 0 20,
      html ''section'' [(''id'', ''home'')] [] 0 600,
      html ''section'' [(''id'', ''contact'')] [] 600 400]"

section \<open>Facts about the document\<close>

lemma length_update_classes [simp]: "length (update_classes i f d) = length d"
  by (simp add: update_classes_def)

lemma nth_update_classes:
  "j < length d \<Longrightarrow>
   update_classes i f d ! j = (if j = i then (d ! j)\<lparr>classList := f (classList (d ! j))\<rparr> else d ! j)"
  by (simp add: update_classes_def)

lemma has_class_update_classes:
  "has_class c (update_classes i f d) j =
     (j < length d \<and> classList_contains c (if j = i then f (classList (d ! j)) else classList (d ! j)))"
  by (auto simp: has_class_def nth_update_classes)

lemma first_index_Some:
  "first_index P xs = Some i \<Longrightarrow> i < length xs \<and> P (xs ! i)"
  by (induction xs arbitrary: i) (auto split: if_splits)

lemma first_index_least:
  "first_index P xs = Some i \<Longrightarrow> j < i \<Longrightarrow> \<not> P (xs ! j)"
proof (induction xs arbitrary: i j)
  case Nil
  then show ?case by simp
next
  case (Cons x xs)
  then show ?case by (cases j) (auto split: if_splits)
qed

lemma first_index_None: "first_index P xs = None \<longleftrightarrow> (\<forall>x \<in> set xs. \<not> P x)"
  by (induction xs) auto

lemma getElementById_Some:
  "getElementById ident d = Some i \<Longrightarrow> i < length d \<and> getAttribute ''id'' (d ! i) = Some ident"
  by (auto simp: getElementById_def has_id_def dest: first_index_Some)

lemma getElementById_distinct:
  "getElementById a d = Some i \<Longrightarrow> getElementById b d = Some j \<Longrightarrow> a \<noteq> b \<Longrightarrow> i \<noteq> j"
  by (auto dest!: getElementById_Some)

lemma contains_toggle: "classList_contains c (classList_toggle c cl) = (\<not> classList_contains c cl)"
  by (simp add: classList_contains_def classList_toggle_def classList_remove_def)

lemma contains_remove: "classList_contains c (classList_remove c' cl) = (classList_contains c cl \<and> c \<noteq> c')"
  by (auto simp: classList_contains_def classList_remove_def)

lemma contains_add: "classList_contains c (classList_add c' cl) = (classList_contains c cl \<or> c = c')"
  by (auto simp: classList_contains_def classList_add_def)

section \<open>The delay of the typewriter\<close>

text \<open>\<open>below_one\<close> says that the value of the double is less than one.\<close>

lemma below_one_value:
  assumes "is_double x"
  shows "below_one x \<longleftrightarrow> double_value x < 1"
proof (cases "significand x = 0")
  case True
  then show ?thesis by (simp add: below_one_def double_value_def)
next
  case False
  show ?thesis
  proof (cases "exponent x < 0")
    case True
    define L where "L = nat (- exponent x)"
    have e: "real_of_int (exponent x) = - real L"
      using True by (simp add: L_def)
    have "double_value x = real (significand x) / 2 ^ L"
      by (simp add: double_value_def e powr_minus powr_realpow field_simps)
    then have "double_value x < 1 \<longleftrightarrow> real (significand x) < 2 ^ L"
      by simp
    also have "\<dots> \<longleftrightarrow> significand x < 2 ^ L"
      by (metis of_nat_less_iff of_nat_numeral of_nat_power)
    finally show ?thesis
      using True False by (simp add: below_one_def L_def)
  next
    case False
    then have "1 \<le> 2 powr real_of_int (exponent x)"
      by (simp add: ge_one_powr_ge_zero)
    moreover have "1 \<le> real (significand x)"
      using \<open>significand x \<noteq> 0\<close> by simp
    ultimately have "1 \<le> double_value x"
      unfolding double_value_def by (metis mult_mono' mult_1 zero_le_one)
    then show ?thesis
      using False \<open>significand x \<noteq> 0\<close> by (simp add: below_one_def)
  qed
qed

lemma excess_bits_le: "n < 2 ^ (53 + j) \<Longrightarrow> excess_bits n \<le> j"
proof (induction j arbitrary: n)
  case 0
  then show ?case by (simp add: excess_bits.simps)
next
  case (Suc j)
  have "(2::nat) ^ (53 + Suc j) = 2 ^ (53 + j) * 2"
    by (simp only: add_Suc_right power_Suc mult.commute)
  with Suc.prems have "n < 2 ^ (53 + j) * 2"
    by (simp only:)
  then have "n div 2 < 2 ^ (53 + j)"
    by (rule less_mult_imp_div_less)
  then have "excess_bits (n div 2) \<le> j"
    by (rule Suc.IH)
  then show ?case
    by (subst excess_bits.simps) simp
qed

lemma excess_bits_small: "n < 2 ^ 53 \<Longrightarrow> excess_bits n = 0"
  by (subst excess_bits.simps) simp

lemma round_half_even_zero: "round_half_even n 0 = n"
  by (simp add: round_half_even_def)

lemma round_half_even_upper: "2 * 2 ^ k * round_half_even n k \<le> 2 * n + 2 ^ k"
proof -
  define q where "q = n div 2 ^ k"
  define r where "r = n mod 2 ^ k"
  have n: "n = q * 2 ^ k + r"
    unfolding q_def r_def by (rule div_mult_mod_eq [symmetric])
  have "round_half_even n k \<le> (if 2 * r < 2 ^ k then q else q + 1)"
    by (simp add: round_half_even_def Let_def q_def r_def)
  then have "2 * 2 ^ k * round_half_even n k \<le> 2 * 2 ^ k * (if 2 * r < 2 ^ k then q else q + 1)"
    by (rule mult_le_mono2)
  also have "\<dots> \<le> 2 * n + 2 ^ k"
    by (simp add: n algebra_simps)
  finally show ?thesis .
qed

lemma int_div_power: "int n div 2 ^ j = int (n div 2 ^ j)"
  by (simp add: zdiv_int)

lemma floor_product_below_70:
  assumes "is_random r"
  shows "js_floor (js_times r 70) < 70"
proof (cases "significand r = 0")
  case True
  then show ?thesis
    by (simp add: js_floor_def js_times_def excess_bits_small round_half_even_zero)
next
  case False
  define m where "m = significand r"
  define L where "L = nat (- exponent r)"
  define p where "p = m * 70"
  define k where "k = excess_bits p"
  from assms False have e: "exponent r < 0" and mL: "m < 2 ^ L" and m53: "m < 2 ^ 53"
    by (simp_all add: is_random_def is_double_def below_one_def m_def L_def)
  have eL: "exponent r = - int L"
    using e by (simp add: L_def)
  have "p < 70 * 2 ^ 53"
    using m53 by (simp add: p_def)
  then have "p < 2 ^ (53 + 7)"
    by simp
  then have k7: "k \<le> 7"
    unfolding k_def by (rule excess_bits_le)
  show ?thesis
  proof (cases "p < 2 ^ 53")
    case True
    have "p < 70 * 2 ^ L"
      using mL by (simp add: p_def)
    then have "p div 2 ^ L < 70"
      by (simp add: less_mult_imp_div_less)
    then have "int p div 2 ^ L < 70"
      by (simp add: int_div_power)
    then show ?thesis
      using True e
      by (simp add: js_floor_def js_times_def excess_bits_small round_half_even_zero
          p_def [symmetric] m_def [symmetric] L_def [symmetric])
  next
    case False
    have L47: "47 \<le> L"
    proof (rule ccontr)
      assume "\<not> 47 \<le> L"
      then have "L \<le> 46" by simp
      then have "(2::nat) ^ L \<le> 2 ^ 46"
        by (intro power_increasing) simp_all
      then have "p < 70 * 2 ^ 46"
        using mL by (simp add: p_def)
      with False show False by simp
    qed
    then have kL: "k < L"
      using k7 by simp
    define N where "N = round_half_even p k"
    define X where "X = (2::nat) ^ L"
    define Y where "Y = (2::nat) ^ k"
    define Z where "Z = 2 ^ k * N"
    have "p + 70 \<le> 70 * X"
      using mL by (simp add: p_def X_def)
    moreover have "Y \<le> 128"
      using power_increasing [of k 7 "2::nat"] k7 by (simp add: Y_def)
    moreover have "2 * Z \<le> 2 * p + Y"
      using round_half_even_upper [of k p] by (simp add: N_def Y_def Z_def mult.assoc)
    ultimately have "Z < 70 * X"
      by linarith
    moreover have "X = 2 ^ k * 2 ^ (L - k)"
      using kL by (simp add: X_def power_add [symmetric])
    ultimately have "2 ^ k * N < 2 ^ k * (70 * 2 ^ (L - k))"
      by (simp add: Z_def mult_ac)
    then have "N < 70 * 2 ^ (L - k)"
      by simp
    then have "N div 2 ^ (L - k) < 70"
      by (simp add: less_mult_imp_div_less)
    then have "int N div 2 ^ (L - k) < 70"
      by (simp add: int_div_power)
    moreover have "nat (int L - int k) = L - k"
      by simp
    ultimately show ?thesis
      using kL
      by (simp add: js_floor_def js_times_def p_def [symmetric] m_def [symmetric]
          k_def [symmetric] N_def [symmetric] eL Let_def)
  qed
qed

lemma js_floor_nonneg: "0 \<le> js_floor x"
  by (simp add: js_floor_def pos_imp_zdiv_nonneg_iff)

text \<open>
  Claim C9. For every value that \<^verbatim>\<open>Math.random()\<close> may return, a double in \<open>[0, 1)\<close>,
  the delay \<^verbatim>\<open>Math.floor(Math.random() * 70) + 80\<close> that \<^verbatim>\<open>typeCharacter\<close> passes to
  \<^verbatim>\<open>setTimeout\<close> is an integer from 80 to 149, the product being rounded as a double.
\<close>

theorem delay_between_80_and_149:
  "is_random r \<Longrightarrow> 80 \<le> delay_of r \<and> delay_of r \<le> 149"
  using floor_product_below_70 [of r] js_floor_nonneg [of "js_times r 70"]
  by (simp add: delay_of_def)


text \<open>At the largest double below one.\<close>

theorem delay_witness:
  "is_random \<lparr>significand = 9007199254740991, exponent = - 53\<rparr>
   \<and> 80 \<le> delay_of \<lparr>significand = 9007199254740991, exponent = - 53\<rparr>
   \<and> delay_of \<lparr>significand = 9007199254740991, exponent = - 53\<rparr> \<le> 149"
proof -
  have r: "is_random \<lparr>significand = 9007199254740991, exponent = - 53\<rparr>"
    by (simp add: is_random_def is_double_def below_one_def)
  show ?thesis
    using r delay_between_80_and_149 [OF r] by simp
qed


text \<open>Both bounds are reached: 149 at the largest double below one, 80 at zero.\<close>

lemma excess_bits_largest: "excess_bits 630503947831869370 = 7"
  by (simp add: excess_bits.simps)

lemma largest_random_delay:
  "delay_of \<lparr>significand = 9007199254740991, exponent = - 53\<rparr> = 149"
  by (simp add: delay_of_def js_times_def js_floor_def round_half_even_def excess_bits_largest)

lemma excess_bits_70: "excess_bits 70 = 0"
  by (simp add: excess_bits.simps)

lemma half_delay:
  "delay_of \<lparr>significand = 1, exponent = - 1\<rparr> = 115"
  by (simp add: delay_of_def js_times_def js_floor_def round_half_even_def excess_bits_70)

lemma zero_delay: "delay_of \<lparr>significand = 0, exponent = 0\<rparr> = 80"
  by (simp add: delay_of_def js_times_def js_floor_def round_half_even_def excess_bits_small)

section \<open>The typewriter\<close>

lemma length_append_text [simp]: "length (append_text i t d) = length d"
  by (simp add: append_text_def)

lemma append_text_Nil [simp]: "append_text i [] d = d"
  by (simp add: append_text_def)

lemma append_text_append:
  "append_text i u (append_text i t d) = append_text i (t @ u) d"
  by (simp add: append_text_def)

lemma textContent_append_text:
  "i < length d \<Longrightarrow> textContent (append_text i t d ! i) = textContent (d ! i) @ t"
  by (simp add: append_text_def)

lemma length_nameToType: "length nameToType = 21"
  by (simp add: nameToType_def)

lemma timer_fires_types:
  assumes "timeouts s = [t]" and "charIndex s < length nameToType"
  shows "timer_fires (Some e) r s =
           s\<lparr>dom := append_text e [nameToType ! charIndex s] (dom s),
             charIndex := Suc (charIndex s),
             timeouts := [delay_of r]\<rparr>"
  using assms by (simp add: timer_fires_def typeCharacter_def)

lemma timer_fires_stops:
  assumes "timeouts s = [t]" and "\<not> charIndex s < length nameToType"
  shows "timer_fires (Some e) r s = s\<lparr>timeouts := []\<rparr>"
  using assms by (simp add: timer_fires_def typeCharacter_def)

lemma timers_fired_types:
  assumes "timeouts s = [t]" and "charIndex s + k \<le> length nameToType"
  shows "timers_fired (Some e) rnd n k s =
           s\<lparr>dom := append_text e (take k (drop (charIndex s) nameToType)) (dom s),
             charIndex := charIndex s + k,
             timeouts := [if k = 0 then t else delay_of (rnd (n + k - 1))]\<rparr>"
  using assms
proof (induction k arbitrary: s n t)
  case 0
  then show ?case by simp
next
  case (Suc k)
  let ?s1 = "timer_fires (Some e) (rnd n) s"
  have lt: "charIndex s < length nameToType"
    using Suc.prems by simp
  have s1: "?s1 = s\<lparr>dom := append_text e [nameToType ! charIndex s] (dom s),
                     charIndex := Suc (charIndex s),
                     timeouts := [delay_of (rnd n)]\<rparr>"
    using Suc.prems(1) lt by (rule timer_fires_types)
  have t1: "timeouts ?s1 = [delay_of (rnd n)]" and c1: "charIndex ?s1 = Suc (charIndex s)"
    and d1: "dom ?s1 = append_text e [nameToType ! charIndex s] (dom s)"
    by (simp_all add: s1)
  have le: "charIndex ?s1 + k \<le> length nameToType"
    using Suc.prems c1 by simp
  have chars: "nameToType ! charIndex s # take k (drop (Suc (charIndex s)) nameToType)
               = take (Suc k) (drop (charIndex s) nameToType)"
    using lt by (simp add: Cons_nth_drop_Suc [symmetric])
  have "timers_fired (Some e) rnd n (Suc k) s = timers_fired (Some e) rnd (Suc n) k ?s1"
    by simp
  also have "\<dots> = ?s1\<lparr>dom := append_text e (take k (drop (charIndex ?s1) nameToType)) (dom ?s1),
             charIndex := charIndex ?s1 + k,
             timeouts := [if k = 0 then delay_of (rnd n) else delay_of (rnd (Suc n + k - 1))]\<rparr>"
    using t1 le by (rule Suc.IH)
  also have "\<dots> = s\<lparr>dom := append_text e (take (Suc k) (drop (charIndex s) nameToType)) (dom s),
             charIndex := charIndex s + Suc k,
             timeouts := [if Suc k = 0 then t else delay_of (rnd (n + Suc k - 1))]\<rparr>"
    unfolding c1 d1 by (simp add: s1 append_text_append chars)
  finally show ?case .
qed

lemma run_timers_unfold:
  assumes "\<And>j. j < k \<Longrightarrow> timeouts (timers_fired el rnd n j s) \<noteq> []"
  shows "run_timers el rnd n s = run_timers el rnd (n + k) (timers_fired el rnd n k s)"
  using assms
proof (induction k arbitrary: n s)
  case 0
  then show ?case by simp
next
  case (Suc k)
  have "timeouts (timers_fired el rnd n 0 s) \<noteq> []"
    by (rule Suc.prems) simp
  then have pending: "timeouts s \<noteq> []"
    by simp
  have later: "timeouts (timers_fired el rnd (Suc n) j (timer_fires el (rnd n) s)) \<noteq> []"
    if "j < k" for j
    using Suc.prems [of "Suc j"] that by simp
  have "run_timers el rnd n s = run_timers el rnd (Suc n) (timer_fires el (rnd n) s)"
    using pending by (subst run_timers.simps) simp
  also have "\<dots> = run_timers el rnd (Suc n + k)
                      (timers_fired el rnd (Suc n) k (timer_fires el (rnd n) s))"
    using later by (rule Suc.IH)
  finally show ?case by simp
qed

lemma run_timers_done: "timeouts s = [] \<Longrightarrow> run_timers el rnd n s = s"
  by (subst run_timers.simps) simp


lemma timers_fired_last:
  "timers_fired el rnd n (Suc k) s = timer_fires el (rnd (n + k)) (timers_fired el rnd n k s)"
  by (induction k arbitrary: n s) simp_all

declare timers_fired.simps(2) [simp del]

lemma timers_fired_all_typed:
  assumes "timeouts s = [t]" and "charIndex s = 0"
  shows "timers_fired (Some e) rnd 0 (Suc (length nameToType)) s =
           s\<lparr>dom := append_text e nameToType (dom s),
             charIndex := length nameToType,
             timeouts := []\<rparr>"
proof -
  let ?s21 = "timers_fired (Some e) rnd 0 (length nameToType) s"
  have s21: "?s21 = s\<lparr>dom := append_text e nameToType (dom s),
                       charIndex := length nameToType,
                       timeouts := [delay_of (rnd (length nameToType - 1))]\<rparr>"
    using timers_fired_types [of s t "length nameToType" e rnd 0] assms
    by (simp add: length_nameToType)
  have "timer_fires (Some e) (rnd (length nameToType)) ?s21 = ?s21\<lparr>timeouts := []\<rparr>"
    by (rule timer_fires_stops [where t = "delay_of (rnd (length nameToType - 1))"])
      (simp_all add: s21)
  then show ?thesis
    by (simp add: timers_fired_last s21)
qed

lemma run_timers_all_typed:
  assumes "timeouts s = [t]" and "charIndex s = 0"
  shows "run_timers (Some e) rnd 0 s = timers_fired (Some e) rnd 0 (Suc (length nameToType)) s"
proof -
  have pending: "timeouts (timers_fired (Some e) rnd 0 j s) \<noteq> []"
    if "j < Suc (length nameToType)" for j
    using timers_fired_types [of s t j e rnd 0] assms that by simp
  have "run_timers (Some e) rnd 0 s =
          run_timers (Some e) rnd (0 + Suc (length nameToType))
            (timers_fired (Some e) rnd 0 (Suc (length nameToType)) s)"
    using pending by (rule run_timers_unfold)
  also have "\<dots> = timers_fired (Some e) rnd 0 (Suc (length nameToType)) s"
    by (rule run_timers_done) (simp add: timers_fired_all_typed [OF assms])
  finally show ?thesis .
qed

text \<open>
  Claim C8, as amended. With the element \<open>e\<close> present, \<^verbatim>\<open>charIndex\<close> at 0 and the first timer
  pending: after \<open>k\<close> timers, for every \<open>k\<close> up to the length of the name, the first \<open>k\<close>
  characters of the name are appended to the text of the element, \<^verbatim>\<open>charIndex\<close> is \<open>k\<close> and
  exactly one timer is pending (also after the last character); the next call appends
  nothing and schedules nothing. So the animation ends after one call more than the
  name has characters, with the text the element had at the start followed by the
  whole name, and nothing else of the page changed.
\<close>

theorem typewriter_types_the_name:
  assumes "e < length (dom s)" and "charIndex s = 0" and "timeouts s = [t]"
  shows "(\<forall>k\<le>length nameToType.
            timers_fired (Some e) rnd 0 k s =
              s\<lparr>dom := append_text e (take k nameToType) (dom s),
                charIndex := k,
                timeouts := [if k = 0 then t else delay_of (rnd (k - 1))]\<rparr>)
       \<and> timers_fired (Some e) rnd 0 (Suc (length nameToType)) s =
              s\<lparr>dom := append_text e nameToType (dom s),
                charIndex := length nameToType,
                timeouts := []\<rparr>
       \<and> run_timers (Some e) rnd 0 s = timers_fired (Some e) rnd 0 (Suc (length nameToType)) s
       \<and> textContent (dom (run_timers (Some e) rnd 0 s) ! e) = textContent (dom s ! e) @ nameToType"
proof (intro conjI allI impI)
  fix k
  assume "k \<le> length nameToType"
  then show "timers_fired (Some e) rnd 0 k s =
              s\<lparr>dom := append_text e (take k nameToType) (dom s),
                charIndex := k,
                timeouts := [if k = 0 then t else delay_of (rnd (k - 1))]\<rparr>"
    using timers_fired_types [of s t k e rnd 0] assms by simp
next
  show "timers_fired (Some e) rnd 0 (Suc (length nameToType)) s =
              s\<lparr>dom := append_text e nameToType (dom s),
                charIndex := length nameToType,
                timeouts := []\<rparr>"
    using assms(3,2) by (rule timers_fired_all_typed)
next
  show "run_timers (Some e) rnd 0 s = timers_fired (Some e) rnd 0 (Suc (length nameToType)) s"
    using assms(3,2) by (rule run_timers_all_typed)
next
  show "textContent (dom (run_timers (Some e) rnd 0 s) ! e) = textContent (dom s ! e) @ nameToType"
    using assms(1)
    by (simp add: run_timers_all_typed [OF assms(3,2)] timers_fired_all_typed [OF assms(3,2)]
        textContent_append_text)
qed

text \<open>On the sample page, right after \<^verbatim>\<open>setTimeout(typeCharacter, 500)\<close>.\<close>

theorem typewriter_witness:
  "5 < length (dom ((initial_page sample_document)\<lparr>timeouts := [500]\<rparr>))
   \<and> charIndex ((initial_page sample_document)\<lparr>timeouts := [500]\<rparr>) = 0
   \<and> timeouts ((initial_page sample_document)\<lparr>timeouts := [500]\<rparr>) = [500]
   \<and> textContent (dom (run_timers (Some 5) sample_random 0
         ((initial_page sample_document)\<lparr>timeouts := [500]\<rparr>)) ! 5) = ''Noor Elahi Ali Shibly''"
proof -
  let ?s = "(initial_page sample_document)\<lparr>timeouts := [500]\<rparr>"
  have h: "5 < length (dom ?s)" "charIndex ?s = 0" "timeouts ?s = [500]"
    by (simp_all add: initial_page_def sample_document_def)
  have "textContent (dom ?s ! 5) = []"
    by (simp add: initial_page_def sample_document_def html_def)
  then show ?thesis
    using h typewriter_types_the_name [OF h, of sample_random, THEN conjunct2, THEN conjunct2,
        THEN conjunct2]
    by (simp add: nameToType_def)
qed

text \<open>
  The claim as it was stated fails in two places. After 21 timers all 21 characters are
  typed and a timer is pending all the same: \<^verbatim>\<open>typeCharacter\<close> has scheduled itself with no
  character left, and its 22nd call appends nothing. And on a page whose element holds
  the text \<^verbatim>\<open>|\<close> before the script runs, the text at the end is not the name.
\<close>

theorem typewriter_counterexample:
  "charIndex (timers_fired (Some 5) sample_random 0 21
       ((initial_page sample_document)\<lparr>timeouts := [500]\<rparr>)) = length nameToType
   \<and> timeouts (timers_fired (Some 5) sample_random 0 21
       ((initial_page sample_document)\<lparr>timeouts := [500]\<rparr>)) \<noteq> []
   \<and> dom (timers_fired (Some 5) sample_random 0 22
       ((initial_page sample_document)\<lparr>timeouts := [500]\<rparr>))
     = dom (timers_fired (Some 5) sample_random 0 21
       ((initial_page sample_document)\<lparr>timeouts := [500]\<rparr>))
   \<and> textContent (dom (run_timers (Some 0) sample_random 0
       ((initial_page [(html ''span'' [(''id'', ''typed-name'')] [] 0 20)\<lparr>textContent := ''|''\<rparr>])
          \<lparr>timeouts := [500]\<rparr>)) ! 0) \<noteq> nameToType"
proof -
  let ?s = "(initial_page sample_document)\<lparr>timeouts := [500]\<rparr>"
  let ?c = "(initial_page [(html ''span'' [(''id'', ''typed-name'')] [] 0 20)\<lparr>textContent := ''|''\<rparr>])
              \<lparr>timeouts := [500]\<rparr>"
  have h: "timeouts ?s = [500]" "charIndex ?s = 0"
    by (simp_all add: initial_page_def)
  have s21: "timers_fired (Some 5) sample_random 0 21 ?s =
         ?s\<lparr>dom := append_text 5 (take 21 (drop (charIndex ?s) nameToType)) (dom ?s),
             charIndex := charIndex ?s + 21,
             timeouts := [if (21::nat) = 0 then 500 else delay_of (sample_random (0 + 21 - 1))]\<rparr>"
    by (rule timers_fired_types) (simp_all add: h length_nameToType)
  have s22: "timers_fired (Some 5) sample_random 0 22 ?s =
         ?s\<lparr>dom := append_text 5 nameToType (dom ?s), charIndex := length nameToType, timeouts := []\<rparr>"
    using timers_fired_all_typed [OF h, of 5 sample_random] by (simp add: length_nameToType)
  have c: "timeouts ?c = [500]" "charIndex ?c = 0"
    by (simp_all add: initial_page_def)
  have "textContent (dom (run_timers (Some 0) sample_random 0 ?c) ! 0) = ''|'' @ nameToType"
    by (simp add: run_timers_all_typed [OF c] timers_fired_all_typed [OF c])
      (simp add: initial_page_def html_def textContent_append_text)
  then show ?thesis
    by (simp add: s21 s22 h length_nameToType)
qed


section \<open>What a handler changes\<close>

lemma length_set_backgroundColor [simp]: "length (set_backgroundColor i v d) = length d"
  by (simp add: set_backgroundColor_def)

subsection \<open>Only the class \<open>active\<close>\<close>

lemma without_active_update_classes:
  assumes "\<And>cl. filter (\<lambda>c. c \<noteq> ''active'') (f cl) = filter (\<lambda>c. c \<noteq> ''active'') cl"
  shows "map without_active (update_classes i f d) = map without_active d"
proof (cases "i < length d")
  case True
  have "without_active ((d ! i)\<lparr>classList := f (classList (d ! i))\<rparr>) = without_active (d ! i)"
    by (simp add: without_active_def assms)
  then show ?thesis
    using True by (simp add: update_classes_def map_update list_update_same_conv)
next
  case False
  then show ?thesis by (simp add: update_classes_def)
qed

lemma without_active_remove:
  "map without_active (update_classes i (classList_remove ''active'') d) = map without_active d"
  by (rule without_active_update_classes) (simp add: classList_remove_def)

lemma without_active_add:
  "map without_active (update_classes i (classList_add ''active'') d) = map without_active d"
  by (rule without_active_update_classes) (simp add: classList_add_def)

lemma without_active_toggle:
  "map without_active (update_classes i (classList_toggle ''active'') d) = map without_active d"
  by (rule without_active_update_classes) (simp add: classList_toggle_def classList_remove_def)

lemma without_active_remove_active:
  "map without_active (remove_active links d) = map without_active d"
  unfolding remove_active_def
  by (induction links arbitrary: d) (simp_all add: without_active_remove)


lemma highlight_sections_without_active:
  "map without_active (dom (state_of (highlight_sections qs links p secs s)))
     = map without_active (dom s)"
  by (induction secs arbitrary: s)
    (simp_all add: Let_def without_active_remove_active without_active_add
      split: sum.splits option.splits)


subsection \<open>The part of the document that no handler writes\<close>

lemma other_classes_without_active:
  "other_classes (filter (\<lambda>c. c \<noteq> ''active'') cl) = other_classes cl"
  by (induction cl) (simp_all add: other_classes_def)

lemma unchanged_of_without_active: "unchanged_of b i (without_active e) = unchanged_of b i e"
  by (simp add: unchanged_of_def without_active_def other_classes_without_active)

lemma unchanged_part_without_active:
  assumes "map without_active d' = map without_active d"
  shows "unchanged_part b d' = unchanged_part b d"
proof -
  have len: "length d' = length d"
    using assms by (rule map_eq_imp_length_eq)
  have "unchanged_of b i (d' ! i) = unchanged_of b i (d ! i)" if "i < length d" for i
  proof -
    have "map without_active d' ! i = map without_active d ! i"
      by (simp add: assms)
    then have "without_active (d' ! i) = without_active (d ! i)"
      using that len by simp
    then show ?thesis
      by (metis unchanged_of_without_active)
  qed
  then show ?thesis
    by (simp add: unchanged_part_def len)
qed

lemma unchanged_part_update_classes:
  assumes "\<And>cl. other_classes (f cl) = other_classes cl"
  shows "unchanged_part b (update_classes i f d) = unchanged_part b d"
  by (simp add: unchanged_part_def update_classes_def nth_list_update unchanged_of_def assms)

lemma unchanged_part_append_text:
  "unchanged_part b (append_text i t d) = unchanged_part b d"
  by (simp add: unchanged_part_def append_text_def nth_list_update unchanged_of_def)

lemma unchanged_part_set_backgroundColor:
  assumes "navbar b = Some i"
  shows "unchanged_part b (set_backgroundColor i v d) = unchanged_part b d"
  by (simp add: unchanged_part_def set_backgroundColor_def nth_list_update unchanged_of_def assms)

lemma other_classes_toggle: "other_classes (classList_toggle ''active'' cl) = other_classes cl"
  by (simp add: classList_toggle_def classList_remove_def other_classes_def)

lemma other_classes_remove: "other_classes (classList_remove ''active'' cl) = other_classes cl"
  by (simp add: classList_remove_def other_classes_def)

lemma other_classes_add_visible: "other_classes (classList_add ''visible'' cl) = other_classes cl"
  by (simp add: classList_add_def other_classes_def)

lemma unchanged_part_navToggle_click:
  "unchanged_part b (dom (navToggle_click t m s)) = unchanged_part b (dom s)"
  by (simp add: navToggle_click_def unchanged_part_update_classes other_classes_toggle)

lemma unchanged_part_navLink_click:
  "unchanged_part b (dom (navLink_click t m s)) = unchanged_part b (dom s)"
  by (simp add: navLink_click_def unchanged_part_update_classes other_classes_remove)

lemma dom_anchor_click: "dom (state_of (snd (anchor_click qs a s))) = dom s"
  by (simp add: anchor_click_def Let_def split: sum.splits option.splits)

lemma unchanged_part_fadeObserver_callback:
  "unchanged_part b (dom (fadeObserver_callback entries s)) = unchanged_part b (dom s)"
  by (induction entries arbitrary: s)
    (simp_all add: unchanged_part_update_classes other_classes_add_visible)

lemma unchanged_part_timer_fires:
  "unchanged_part b (dom (timer_fires el r s)) = unchanged_part b (dom s)"
  by (simp add: timer_fires_def typeCharacter_def unchanged_part_append_text
      split: list.splits option.splits)

lemma dom_scroll_listener: "dom (scroll_listener s) = dom s"
  by (simp add: scroll_listener_def cancelAnimationFrame_def Let_def split: option.splits)

lemma unchanged_part_highlightNavLink:
  "unchanged_part b' (dom (state_of (highlightNavLink qs b scrollY s))) = unchanged_part b' (dom s)"
  unfolding highlightNavLink_def
  by (rule unchanged_part_without_active) (rule highlight_sections_without_active)

lemma unchanged_part_run_callbacks:
  "unchanged_part b' (dom (run_callbacks qs b scrollY hs s)) = unchanged_part b' (dom s)"
  by (induction hs arbitrary: s) (simp_all add: unchanged_part_highlightNavLink)

lemma unchanged_part_animation_frame:
  "unchanged_part b' (dom (animation_frame qs b scrollY s)) = unchanged_part b' (dom s)"
  by (simp add: animation_frame_def unchanged_part_run_callbacks)

lemma unchanged_part_handleNavbarScroll:
  "unchanged_part b (dom (state_of (handleNavbarScroll (navbar b) scrollY s)))
     = unchanged_part b (dom s)"
  by (simp add: handleNavbarScroll_def unchanged_part_set_backgroundColor split: option.splits)

lemma unchanged_part_setup_fade:
  "unchanged_part b (dom (setup_fade available els s)) = unchanged_part b (dom s)"
proof (cases available)
  case True
  have "dom (fold observe els s) = dom s"
    by (induction els arbitrary: s) (simp_all add: observe_def)
  then show ?thesis
    using True by (simp add: setup_fade_def)
next
  case False
  have "unchanged_part b (fold (\<lambda>el. update_classes el (classList_add ''visible'')) els d)
          = unchanged_part b d" for d
    by (induction els arbitrary: d)
      (simp_all add: unchanged_part_update_classes other_classes_add_visible)
  then show ?thesis
    using False by (simp add: setup_fade_def)
qed


lemma sample_bindings:
  "bindings_of sample_document =
     \<lparr>navToggle = Some 1, navMenu = Some 2, navLinks = [3, 4], smoothScrollLinks = [3, 4],
      fadeElements = [6, 7], typedNameElement = Some 5, sections = [6, 7],
      navLinksForHighlight = [3, 4], navbar = Some 0\<rparr>"
  by (simp add: bindings_of_def sample_document_def html_def getElementById_def has_id_def
      getAttribute_def all_indices_def is_nav_link_def is_hash_anchor_def is_fade_in_def
      is_section_with_id_def classList_contains_def upt_rec)

lemma unchanged_part_run_handler:
  "unchanged_part b (dom (run_handler qs b h s)) = unchanged_part b (dom s)"
proof (cases h)
  case NavToggleClick
  then show ?thesis
    by (simp add: unchanged_part_navToggle_click split: option.splits)
next
  case (NavLinkClick link)
  then show ?thesis
    by (simp add: unchanged_part_navLink_click split: option.splits)
next
  case (AnchorClick a)
  then show ?thesis by (simp add: dom_anchor_click)
next
  case (FadeObserverCallback entries)
  then show ?thesis by (simp add: unchanged_part_fadeObserver_callback)
next
  case (TimerFires r)
  then show ?thesis by (simp add: unchanged_part_timer_fires)
next
  case ScrollListener
  then show ?thesis by (simp add: dom_scroll_listener)
next
  case (AnimationFrame scrollY)
  then show ?thesis by (simp add: unchanged_part_animation_frame)
next
  case (HandleNavbarScroll scrollY)
  then show ?thesis by (simp add: unchanged_part_handleNavbarScroll)
qed




section \<open>The constants of the DOMContentLoaded handler\<close>

text \<open>
  The handlers work with the elements that the DOMContentLoaded handler looked up.
  Every lookup depends only on tag names, attributes and the classes \<^verbatim>\<open>nav-link\<close> and
  \<^verbatim>\<open>fade-in\<close>, and before its last lookup that handler has changed nothing but the
  classes \<^verbatim>\<open>visible\<close> and \<^verbatim>\<open>active\<close>: the lookups it makes after its first changes to the
  document are those of \<open>bindings_of\<close>.
\<close>

lemma first_index_same:
  assumes "length xs = length ys" and "\<And>i. i < length xs \<Longrightarrow> P (xs ! i) = Q (ys ! i)"
  shows "first_index P xs = first_index Q ys"
  using assms
proof (induction xs ys rule: list_induct2)
  case Nil
  then show ?case by simp
next
  case (Cons x xs y ys)
  have head: "P x = Q y"
    using Cons.prems [of 0] by simp
  have "P (xs ! i) = Q (ys ! i)" if "i < length xs" for i
    using Cons.prems [of "Suc i"] that by simp
  then have "first_index P xs = first_index Q ys"
    by (rule Cons.IH)
  with head show ?case by simp
qed

lemma all_indices_same:
  assumes "length xs = length ys" and "\<And>i. i < length xs \<Longrightarrow> P (xs ! i) = Q (ys ! i)"
  shows "all_indices P xs = all_indices Q ys"
  unfolding all_indices_def using assms by (auto intro: filter_cong)

lemma unchanged_part_nth:
  assumes "unchanged_part b d' = unchanged_part b d"
  shows "length d' = length d"
    and "i < length d \<Longrightarrow> unchanged_of b i (d' ! i) = unchanged_of b i (d ! i)"
proof -
  have "length (unchanged_part b d') = length (unchanged_part b d)"
    using assms by simp
  then show len: "length d' = length d"
    by (simp add: unchanged_part_def)
  assume i: "i < length d"
  have "unchanged_part b d' ! i = unchanged_part b d ! i"
    using assms by simp
  then show "unchanged_of b i (d' ! i) = unchanged_of b i (d ! i)"
    using i len by (simp add: unchanged_part_def)
qed

lemma other_classes_member:
  "c \<noteq> ''active'' \<Longrightarrow> c \<noteq> ''visible'' \<Longrightarrow> c \<in> set (other_classes cl) \<longleftrightarrow> c \<in> set cl"
  by (simp add: other_classes_def)

lemma unchanged_of_selectors:
  assumes "unchanged_of b i e' = unchanged_of b i e"
  shows "is_nav_link e' = is_nav_link e" and "is_fade_in e' = is_fade_in e"
    and "is_hash_anchor e' = is_hash_anchor e" and "is_section_with_id e' = is_section_with_id e"
    and "has_id n e' = has_id n e"
proof -
  have "tagName (unchanged_of b i e') = tagName (unchanged_of b i e)"
    and "attributes (unchanged_of b i e') = attributes (unchanged_of b i e)"
    and "classList (unchanged_of b i e') = classList (unchanged_of b i e)"
    using assms by simp_all
  then have tag: "tagName e' = tagName e" and attrs: "attributes e' = attributes e"
    and classes: "other_classes (classList e') = other_classes (classList e)"
    by (simp_all add: unchanged_of_def)
  have "c \<in> set (classList e') \<longleftrightarrow> c \<in> set (classList e)"
    if "c \<noteq> ''active''" "c \<noteq> ''visible''" for c
    using other_classes_member [OF that, of "classList e'"] other_classes_member [OF that, of "classList e"]
      classes by simp
  then show "is_nav_link e' = is_nav_link e" and "is_fade_in e' = is_fade_in e"
    by (simp_all add: is_nav_link_def is_fade_in_def classList_contains_def)
  show "is_hash_anchor e' = is_hash_anchor e" and "is_section_with_id e' = is_section_with_id e"
    and "has_id n e' = has_id n e"
    by (simp_all add: is_hash_anchor_def is_section_with_id_def has_id_def getAttribute_def tag attrs)
qed

lemma bindings_of_unchanged:
  assumes "unchanged_part b d' = unchanged_part b d"
  shows "bindings_of d' = bindings_of d"
proof -
  note len = unchanged_part_nth(1) [OF assms]
  note sel = unchanged_of_selectors [OF unchanged_part_nth(2) [OF assms]]
  have "getElementById n d' = getElementById n d" for n
    unfolding getElementById_def using len sel(5) by (intro first_index_same) simp_all
  moreover have "all_indices is_nav_link d' = all_indices is_nav_link d"
    using len sel(1) by (intro all_indices_same) simp_all
  moreover have "all_indices is_fade_in d' = all_indices is_fade_in d"
    using len sel(2) by (intro all_indices_same) simp_all
  moreover have "all_indices is_hash_anchor d' = all_indices is_hash_anchor d"
    using len sel(3) by (intro all_indices_same) simp_all
  moreover have "all_indices is_section_with_id d' = all_indices is_section_with_id d"
    using len sel(4) by (intro all_indices_same) simp_all
  ultimately show ?thesis
    by (simp add: bindings_of_def)
qed

lemma unchanged_part_run_handlers:
  "unchanged_part b (dom (run_handlers qs b hs s)) = unchanged_part b (dom s)"
  unfolding run_handlers_def
  by (induction hs arbitrary: s) (simp_all add: unchanged_part_run_handler)

lemma main_by_bindings:
  "main qs available scrollY d =
     highlightNavLink qs (bindings_of d) scrollY
       ((setup_fade available (fadeElements (bindings_of d)) (initial_page d))\<lparr>timeouts := [500]\<rparr>)"
proof -
  let ?s1 = "setup_fade available (all_indices is_fade_in d) (initial_page d)"
  have "unchanged_part (bindings_of d) (dom ?s1) = unchanged_part (bindings_of d) d"
    by (simp add: unchanged_part_setup_fade initial_page_def)
  then have "bindings_of (dom ?s1) = bindings_of d"
    by (rule bindings_of_unchanged)
  then have "all_indices is_section_with_id (dom ?s1) = sections (bindings_of d)"
    and "all_indices is_nav_link (dom ?s1) = navLinksForHighlight (bindings_of d)"
    by (simp_all add: bindings_of_def)
  moreover have "timeouts ?s1 = []"
  proof -
    have "timeouts (fold observe els s) = timeouts s" for els s
      by (induction els arbitrary: s) (simp_all add: observe_def)
    then show ?thesis
      by (simp add: setup_fade_def initial_page_def)
  qed
  moreover have "fadeElements (bindings_of d) = all_indices is_fade_in d"
    by (simp add: bindings_of_def)
  ultimately show ?thesis
    by (simp add: main_def Let_def highlightNavLink_def initial_page_def)
qed

section \<open>Fade-in elements\<close>

subsection \<open>The class \<open>visible\<close> stays\<close>

lemma all_indices_member: "i \<in> set (all_indices P d) \<longleftrightarrow> i < length d \<and> P (d ! i)"
  by (auto simp: all_indices_def)

lemma has_class_without_active:
  assumes "map without_active d' = map without_active d" and "c \<noteq> ''active''"
  shows "has_class c d' i = has_class c d i"
proof -
  have len: "length d' = length d"
    using assms(1) by (rule map_eq_imp_length_eq)
  show ?thesis
  proof (cases "i < length d")
    case True
    have "map without_active d' ! i = map without_active d ! i"
      by (simp add: assms(1))
    then have "without_active (d' ! i) = without_active (d ! i)"
      using True len by simp
    then have "classList (without_active (d' ! i)) = classList (without_active (d ! i))"
      by (rule arg_cong)
    then have "filter (\<lambda>x. x \<noteq> ''active'') (classList (d' ! i))
                 = filter (\<lambda>x. x \<noteq> ''active'') (classList (d ! i))"
      by (simp add: without_active_def)
    then have "set (filter (\<lambda>x. x \<noteq> ''active'') (classList (d' ! i)))
                 = set (filter (\<lambda>x. x \<noteq> ''active'') (classList (d ! i)))"
      by simp
    then have "c \<in> set (classList (d' ! i)) \<longleftrightarrow> c \<in> set (classList (d ! i))"
      using assms(2) by auto
    then show ?thesis
      using True len by (simp add: has_class_def classList_contains_def)
  next
    case False
    then show ?thesis
      using len by (simp add: has_class_def)
  qed
qed

lemma visible_update_classes:
  assumes "has_class ''visible'' d i"
    and "\<And>cl. ''visible'' \<in> set cl \<Longrightarrow> ''visible'' \<in> set (f cl)"
  shows "has_class ''visible'' (update_classes j f d) i"
  using assms by (simp add: has_class_def update_classes_def nth_list_update classList_contains_def)

lemma has_class_append_text [simp]: "has_class c (append_text j t d) i = has_class c d i"
  by (simp add: has_class_def append_text_def nth_list_update)

lemma has_class_set_backgroundColor [simp]:
  "has_class c (set_backgroundColor j v d) i = has_class c d i"
  by (simp add: has_class_def set_backgroundColor_def nth_list_update)

lemma visible_toggle_active: "''visible'' \<in> set cl \<Longrightarrow> ''visible'' \<in> set (classList_toggle ''active'' cl)"
  by (simp add: classList_toggle_def classList_remove_def)

lemma visible_remove_active: "''visible'' \<in> set cl \<Longrightarrow> ''visible'' \<in> set (classList_remove ''active'' cl)"
  by (simp add: classList_remove_def)

lemma visible_add: "''visible'' \<in> set cl \<Longrightarrow> ''visible'' \<in> set (classList_add c cl)"
  by (simp add: classList_add_def)

lemma visible_fadeObserver_callback:
  "has_class ''visible'' (dom s) i \<Longrightarrow> has_class ''visible'' (dom (fadeObserver_callback entries s)) i"
  by (induction entries arbitrary: s) (simp_all add: visible_update_classes visible_add)

lemma visible_highlightNavLink:
  "has_class ''visible'' (dom (state_of (highlightNavLink qs b scrollY s))) i
     = has_class ''visible'' (dom s) i"
  unfolding highlightNavLink_def
  by (rule has_class_without_active) (simp_all add: highlight_sections_without_active)

lemma visible_run_callbacks:
  "has_class ''visible'' (dom (run_callbacks qs b scrollY hs s)) i = has_class ''visible'' (dom s) i"
  by (induction hs arbitrary: s) (simp_all add: visible_highlightNavLink)

lemma visible_run_handler:
  assumes "has_class ''visible'' (dom s) i"
  shows "has_class ''visible'' (dom (run_handler qs b h s)) i"
proof (cases h)
  case NavToggleClick
  then show ?thesis
    using assms
    by (simp add: navToggle_click_def visible_update_classes visible_toggle_active
        split: option.splits)
next
  case (NavLinkClick link)
  then show ?thesis
    using assms
    by (simp add: navLink_click_def visible_update_classes visible_remove_active
        split: option.splits)
next
  case (AnchorClick a)
  then show ?thesis using assms by (simp add: dom_anchor_click)
next
  case (FadeObserverCallback entries)
  then show ?thesis using assms by (simp add: visible_fadeObserver_callback)
next
  case (TimerFires r)
  then show ?thesis
    using assms by (simp add: timer_fires_def typeCharacter_def split: list.splits option.splits)
next
  case ScrollListener
  then show ?thesis using assms by (simp add: dom_scroll_listener)
next
  case (AnimationFrame scrollY)
  then show ?thesis using assms by (simp add: animation_frame_def visible_run_callbacks)
next
  case (HandleNavbarScroll scrollY)
  then show ?thesis using assms by (simp add: handleNavbarScroll_def split: option.splits)
qed

lemma visible_run_handlers:
  "has_class ''visible'' (dom s) i \<Longrightarrow> has_class ''visible'' (dom (run_handlers qs b hs s)) i"
  unfolding run_handlers_def
  by (induction hs arbitrary: s) (simp_all add: visible_run_handler)

lemma visible_after_fallback:
  assumes "i \<in> set els" and "i < length d"
  shows "has_class ''visible'' (fold (\<lambda>el. update_classes el (classList_add ''visible'')) els d) i"
  using assms
proof (induction els arbitrary: d)
  case Nil
  then show ?case by simp
next
  case (Cons el els)
  let ?d = "update_classes el (classList_add ''visible'') d"
  have keep: "has_class ''visible'' (fold (\<lambda>el. update_classes el (classList_add ''visible'')) els d') i"
    if "has_class ''visible'' d' i" for d'
    using that by (induction els arbitrary: d') (simp_all add: visible_update_classes visible_add)
  show ?case
  proof (cases "i = el")
    case True
    have "has_class ''visible'' ?d i"
      using True Cons.prems(2)
      by (simp add: has_class_def update_classes_def classList_contains_def classList_add_def)
    then show ?thesis
      by (simp add: keep)
  next
    case False
    then have "i \<in> set els"
      using Cons.prems(1) by simp
    moreover have "i < length ?d"
      using Cons.prems(2) by simp
    ultimately show ?thesis
      using Cons.IH [of ?d] by simp
  qed
qed

text \<open>
  Claim C10. Without \<^verbatim>\<open>IntersectionObserver\<close> in the browser, every element of the page with
  the class \<^verbatim>\<open>fade-in\<close> carries \<^verbatim>\<open>visible\<close> when the DOMContentLoaded handler is done, also
  when that handler ends by throwing, and carries it after any handlers that run later.
\<close>

theorem fallback_shows_every_fade_element:
  assumes "i < length d" and "is_fade_in (d ! i)"
  shows "has_class ''visible''
           (dom (run_handlers qs (bindings_of d) hs (state_of (main qs False scrollY d)))) i"
proof -
  have "i \<in> set (all_indices is_fade_in d)"
    using assms by (simp add: all_indices_member)
  then have shown: "has_class ''visible''
               (dom (setup_fade False (all_indices is_fade_in d) (initial_page d))) i"
    using assms(1) by (simp add: setup_fade_def initial_page_def visible_after_fallback)
  have "map without_active (dom (state_of (main qs False scrollY d)))
          = map without_active (dom (setup_fade False (all_indices is_fade_in d) (initial_page d)))"
    by (simp add: main_def Let_def highlight_sections_without_active initial_page_def)
  then have "has_class ''visible'' (dom (state_of (main qs False scrollY d))) i
          = has_class ''visible''
              (dom (setup_fade False (all_indices is_fade_in d) (initial_page d))) i"
    by (rule has_class_without_active) simp
  with shown have "has_class ''visible'' (dom (state_of (main qs False scrollY d))) i"
    by simp
  then show ?thesis
    by (rule visible_run_handlers)
qed


text \<open>On the sample page: the first section, after a scroll event and a frame.\<close>

theorem fallback_witness:
  "6 < length sample_document \<and> is_fade_in (sample_document ! 6)
   \<and> has_class ''visible''
        (dom (run_handlers sample_engine (bindings_of sample_document)
               [ScrollListener, AnimationFrame 700]
               (state_of (main sample_engine False 0 sample_document)))) 6"
proof -
  have h: "6 < length sample_document" "is_fade_in (sample_document ! 6)"
    by (simp_all add: sample_document_def html_def is_fade_in_def classList_contains_def)
  show ?thesis
    using h fallback_shows_every_fade_element [OF h, of sample_engine "[ScrollListener, AnimationFrame 700]" 0]
    by simp
qed

subsection \<open>The observer\<close>

lemma length_dom_fadeObserver_callback [simp]:
  "length (dom (fadeObserver_callback entries s)) = length (dom s)"
  by (induction entries arbitrary: s) simp_all






section \<open>The sample page, loaded\<close>

lemma nav_link_selector_length: "length (nav_link_selector n) = length n + 19"
  by (simp add: nav_link_selector_def)

lemma sample_engine_nav_link:
  assumes "plain_name n"
  shows "sample_engine (nav_link_selector n) d =
           Inr (first_index (\<lambda>e. is_nav_link e \<and> getAttribute ''href'' e = Some (''#'' @ n)) d)"
proof -
  have "take (length (nav_link_selector n) - 19) (drop 17 (nav_link_selector n)) = n"
    by (simp add: nav_link_selector_def)
  moreover have "take 1 (nav_link_selector n) \<noteq> ''#''"
    by (simp add: nav_link_selector_def)
  ultimately show ?thesis
    using assms by (simp add: sample_engine_def Let_def)
qed

lemma sample_engine_id:
  assumes "plain_name n"
  shows "sample_engine (''#'' @ n) d = Inr (getElementById n d)"
  using assms by (simp add: sample_engine_def)

lemma plain_home: "plain_name ''home''" and plain_about: "plain_name ''about''"
  by (simp_all add: plain_name_def)



section \<open>The navbar\<close>

text \<open>
  Claim C1. The claim says that every element looked up is guarded before use. The
  constant \<^verbatim>\<open>navbar\<close> is not: on a page with no element of id \<^verbatim>\<open>navbar\<close> the
  DOMContentLoaded handler returns, so \<^verbatim>\<open>handleNavbarScroll\<close> is attached, and a scroll
  event makes it read \<^verbatim>\<open>navbar.style\<close> of \<^verbatim>\<open>null\<close>, which throws a \<^verbatim>\<open>TypeError\<close>.
\<close>

theorem navbar_is_not_guarded:
  "returned (main sample_engine True 0 page_without_navbar)
   \<and> attached (bindings_of page_without_navbar) True
        (returned (main sample_engine True 0 page_without_navbar)) (HandleNavbarScroll 60)
   \<and> navbar (bindings_of page_without_navbar) = None
   \<and> handleNavbarScroll (navbar (bindings_of page_without_navbar)) 60
        (state_of (main sample_engine True 0 page_without_navbar))
      = Throw TypeError (state_of (main sample_engine True 0 page_without_navbar))"
proof -
  have nb: "navbar (bindings_of page_without_navbar) = None"
    by (simp add: bindings_of_def page_without_navbar_def html_def getElementById_def has_id_def
        getAttribute_def)
  have "all_indices is_fade_in page_without_navbar = []"
    and "all_indices is_section_with_id page_without_navbar = [0]"
    and "all_indices is_nav_link page_without_navbar = []"
    by (simp_all add: all_indices_def page_without_navbar_def html_def is_fade_in_def
        is_section_with_id_def is_nav_link_def classList_contains_def getAttribute_def)
  moreover have "in_section 100 (page_without_navbar ! 0)"
    and "getAttribute ''id'' (page_without_navbar ! 0) = Some ''home''"
    and "first_index (\<lambda>e. is_nav_link e \<and> getAttribute ''href'' e = Some ''#home'')
           page_without_navbar = None"
    by (simp_all add: page_without_navbar_def html_def in_section_def getAttribute_def
        is_nav_link_def classList_contains_def)
  ultimately have "main sample_engine True 0 page_without_navbar
                     = Normal ((initial_page page_without_navbar)\<lparr>timeouts := [500]\<rparr>)"
    by (simp add: main_def Let_def initial_page_def setup_fade_def remove_active_def
        js_string_def sample_engine_nav_link plain_home)
  then show ?thesis
    by (simp add: nb handleNavbarScroll_def)
qed

section \<open>Anchors\<close>

text \<open>
  Claim C6, as amended. The click handler of a same-page anchor whose \<^verbatim>\<open>href\<close> is not \<^verbatim>\<open>#\<close>
  alone prevents the default navigation, and then: when \<^verbatim>\<open>document.querySelector(href)\<close>
  finds an element, it asks for a smooth scroll to the start of that element and
  returns; when it finds none, it returns with nothing scrolled; when it throws, the
  handler throws with nothing scrolled.
\<close>

theorem anchor_click_scrolls_smoothly:
  assumes "is_hash_anchor (dom s ! a)" and "getAttribute ''href'' (dom s ! a) = Some href"
    and "href \<noteq> ''#''"
  shows "fst (anchor_click qs a s)
       \<and> (\<forall>targetElement. qs href (dom s) = Inr (Some targetElement) \<longrightarrow>
            snd (anchor_click qs a s) =
              Normal (s\<lparr>scrollIntoView_calls :=
                          scrollIntoView_calls s @ [(targetElement, Smooth, Start)]\<rparr>))
       \<and> (qs href (dom s) = Inr None \<longrightarrow> snd (anchor_click qs a s) = Normal s)
       \<and> (\<forall>err. qs href (dom s) = Inl err \<longrightarrow> snd (anchor_click qs a s) = Throw err s)"
  using assms(2,3) by (simp add: anchor_click_def js_string_def)

text \<open>On the sample page: a click on the link to \<^verbatim>\<open>#about\<close>.\<close>

theorem anchor_click_witness:
  "is_hash_anchor (dom (initial_page sample_document) ! 4)
   \<and> getAttribute ''href'' (dom (initial_page sample_document) ! 4) = Some ''#about''
   \<and> fst (anchor_click sample_engine 4 (initial_page sample_document))
   \<and> snd (anchor_click sample_engine 4 (initial_page sample_document))
       = Normal ((initial_page sample_document)\<lparr>scrollIntoView_calls := [(7, Smooth, Start)]\<rparr>)"
proof -
  let ?s = "initial_page sample_document"
  have h: "is_hash_anchor (dom ?s ! 4)" "getAttribute ''href'' (dom ?s ! 4) = Some ''#about''"
    "''#about'' \<noteq> ''#''"
    by (simp_all add: initial_page_def sample_document_def html_def is_hash_anchor_def
        getAttribute_def)
  have "sample_engine (''#'' @ ''about'') (dom ?s) = Inr (getElementById ''about'' sample_document)"
    using plain_about by (simp only: sample_engine_id) (simp add: initial_page_def)
  moreover have "getElementById ''about'' sample_document = Some 7"
    by (simp add: getElementById_def has_id_def getAttribute_def sample_document_def html_def)
  ultimately have found: "sample_engine ''#about'' (dom ?s) = Inr (Some 7)"
    by simp
  have "scrollIntoView_calls ?s = []"
    by (simp add: initial_page_def)
  then show ?thesis
    using h(1,2) found anchor_click_scrolls_smoothly [OF h, of sample_engine]
    by simp
qed

text \<open>
  The claim as it was stated fails for an anchor whose \<^verbatim>\<open>href\<close> is \<^verbatim>\<open>#\<close> alone: it is a
  same-page anchor, and its click handler neither prevents the default nor scrolls.
\<close>

theorem bare_hash_counterexample:
  "is_hash_anchor (dom (initial_page [html ''a'' [(''href'', ''#'')] [] 0 20]) ! 0)
   \<and> \<not> fst (anchor_click sample_engine 0 (initial_page [html ''a'' [(''href'', ''#'')] [] 0 20]))
   \<and> snd (anchor_click sample_engine 0 (initial_page [html ''a'' [(''href'', ''#'')] [] 0 20]))
       = Normal (initial_page [html ''a'' [(''href'', ''#'')] [] 0 20])
   \<and> scrollIntoView_calls (initial_page [html ''a'' [(''href'', ''#'')] [] 0 20]) = []"
  by (simp add: anchor_click_def initial_page_def html_def is_hash_anchor_def getAttribute_def)


section \<open>Scroll events and frames\<close>












section \<open>The active nav link\<close>

lemma highlight_sections_append:
  "highlight_sections qs links p (xs @ ys) s =
     (case highlight_sections qs links p xs s of
        Normal mid \<Rightarrow> highlight_sections qs links p ys mid
      | Throw err mid \<Rightarrow> Throw err mid)"
  by (induction xs arbitrary: s) (simp_all add: Let_def split: sum.splits option.splits)

lemma highlight_sections_no_hit:
  "list_all (\<lambda>x. \<not> in_section p (dom s ! x)) secs \<Longrightarrow> highlight_sections qs links p secs s = Normal s"
  by (induction secs) simp_all

lemma same_layout:
  assumes "map without_active d' = map without_active d" and "i < length d"
  shows "in_section p (d' ! i) = in_section p (d ! i)
         \<and> getAttribute n (d' ! i) = getAttribute n (d ! i)"
proof -
  have len: "length d' = length d"
    using assms(1) by (rule map_eq_imp_length_eq)
  have "map without_active d' ! i = map without_active d ! i"
    by (simp add: assms(1))
  then have eq: "without_active (d' ! i) = without_active (d ! i)"
    using assms(2) len by simp
  have "in_section p (without_active e) = in_section p e
        \<and> getAttribute n (without_active e) = getAttribute n e" for e
    by (simp add: in_section_def getAttribute_def without_active_def)
  then show ?thesis
    by (metis eq)
qed

lemma has_class_remove_active:
  "has_class c (remove_active links d) l
     = (has_class c d l \<and> \<not> (c = ''active'' \<and> l \<in> set links))"
  unfolding remove_active_def
proof (induction links arbitrary: d)
  case Nil
  then show ?case by simp
next
  case (Cons x links)
  have "has_class c (update_classes x (classList_remove ''active'') d) l
          = (has_class c d l \<and> \<not> (c = ''active'' \<and> l = x))"
    by (auto simp: has_class_def nth_update_classes contains_remove split: if_splits)
  then show ?case
    by (auto simp: Cons.IH)
qed

lemma length_remove_active [simp]: "length (remove_active links d) = length d"
  unfolding remove_active_def by (induction links arbitrary: d) simp_all

lemma filter_the_one:
  "distinct xs \<Longrightarrow> filter (\<lambda>l. l = a \<and> Q) xs = (if a \<in> set xs \<and> Q then [a] else [])"
  by (induction xs) auto

lemma has_class_add:
  "has_class c (update_classes i (classList_add c') d) j
     = (has_class c d j \<or> (j = i \<and> c = c' \<and> i < length d))"
  by (auto simp: has_class_def nth_update_classes contains_add split: if_splits)

lemma active_links_cleared: "active_links links (remove_active links d) = []"
  by (simp add: active_links_def has_class_remove_active)

lemma active_links_added:
  assumes "distinct links"
  shows "active_links links (update_classes a (classList_add ''active'') (remove_active links d))
           = (if a \<in> set links \<and> a < length d then [a] else [])"
proof -
  have "has_class ''active'' (update_classes a (classList_add ''active'') (remove_active links d)) l
          = (l = a \<and> a < length d)" if "l \<in> set links" for l
    using that
    by (auto simp: has_class_add has_class_remove_active)
  then have "active_links links (update_classes a (classList_add ''active'') (remove_active links d))
          = filter (\<lambda>l. l = a \<and> a < length d) links"
    unfolding active_links_def by (intro filter_cong) simp_all
  then show ?thesis
    using assms by (simp add: filter_the_one)
qed

lemma highlight_sections_last_hit:
  assumes ret: "highlight_sections qs links p secs s = Normal s'"
    and range: "list_all (\<lambda>x. x < length (dom s)) secs"
    and hit: "\<exists>sec\<in>set secs. in_section p (dom s ! sec)"
  shows "\<exists>pre sec post mid.
           secs = pre @ sec # post
           \<and> in_section p (dom s ! sec)
           \<and> list_all (\<lambda>x. \<not> in_section p (dom s ! x)) post
           \<and> highlight_sections qs links p pre s = Normal mid
           \<and> dom s' =
               (case qs (nav_link_selector (js_string (getAttribute ''id'' (dom s ! sec))))
                       (remove_active links (dom mid)) of
                  Inr (Some activeLink) \<Rightarrow>
                    update_classes activeLink (classList_add ''active'')
                      (remove_active links (dom mid))
                | _ \<Rightarrow> remove_active links (dom mid))"
proof -
  from hit obtain pre sec post where split: "secs = pre @ sec # post"
    and sec: "in_section p (dom s ! sec)"
    and post: "\<forall>x\<in>set post. \<not> in_section p (dom s ! x)"
    using split_list_last_prop [of secs "\<lambda>x. in_section p (dom s ! x)"] by blast
  have in_range: "sec < length (dom s)" and post_range: "\<forall>x\<in>set post. x < length (dom s)"
    using range split by (simp_all add: list_all_iff)
  obtain mid where mid: "highlight_sections qs links p pre s = Normal mid"
    and rest: "highlight_sections qs links p (sec # post) mid = Normal s'"
    using ret unfolding split highlight_sections_append
    by (cases "highlight_sections qs links p pre s") simp_all
  have same: "map without_active (dom mid) = map without_active (dom s)"
    using highlight_sections_without_active [of qs links p pre s] by (simp add: mid)
  have len: "length (dom mid) = length (dom s)"
    using same by (rule map_eq_imp_length_eq)
  have sec_mid: "in_section p (dom mid ! sec)"
    and id_mid: "getAttribute ''id'' (dom mid ! sec) = getAttribute ''id'' (dom s ! sec)"
    using same_layout [OF same in_range] sec by simp_all
  let ?cleared = "remove_active links (dom mid)"
  let ?sel = "nav_link_selector (js_string (getAttribute ''id'' (dom s ! sec)))"
  have quiet: "highlight_sections qs links p post m = Normal m"
    if "map without_active (dom m) = map without_active (dom s)" for m
  proof (rule highlight_sections_no_hit)
    show "list_all (\<lambda>x. \<not> in_section p (dom m ! x)) post"
      unfolding list_all_iff
    proof
      fix x
      assume x: "x \<in> set post"
      then have "x < length (dom s)"
        using post_range by simp
      then have "in_section p (dom m ! x) = in_section p (dom s ! x)"
        using same_layout [OF that] by simp
      then show "\<not> in_section p (dom m ! x)"
        using post x by simp
    qed
  qed
  have cleared_same: "map without_active ?cleared = map without_active (dom s)"
    by (simp add: without_active_remove_active same)
  have "dom s' =
          (case qs ?sel ?cleared of
             Inr (Some activeLink) \<Rightarrow> update_classes activeLink (classList_add ''active'') ?cleared
           | _ \<Rightarrow> ?cleared)"
  proof (cases "qs ?sel ?cleared")
    case (Inl err)
    then show ?thesis
      using rest sec_mid id_mid by simp
  next
    case (Inr found)
    show ?thesis
    proof (cases found)
      case None
      have "highlight_sections qs links p post (mid\<lparr>dom := ?cleared\<rparr>) = Normal (mid\<lparr>dom := ?cleared\<rparr>)"
        by (rule quiet) (simp add: cleared_same)
      then have "highlight_sections qs links p (sec # post) mid = Normal (mid\<lparr>dom := ?cleared\<rparr>)"
        using sec_mid id_mid Inr None by simp
      with rest have "s' = mid\<lparr>dom := ?cleared\<rparr>"
        by simp
      then show ?thesis
        using Inr None by simp
    next
      case (Some a)
      let ?marked = "update_classes a (classList_add ''active'') ?cleared"
      have "highlight_sections qs links p post (mid\<lparr>dom := ?marked\<rparr>) = Normal (mid\<lparr>dom := ?marked\<rparr>)"
        by (rule quiet) (simp add: without_active_add cleared_same)
      then have "highlight_sections qs links p (sec # post) mid = Normal (mid\<lparr>dom := ?marked\<rparr>)"
        using sec_mid id_mid Inr Some by simp
      with rest have "s' = mid\<lparr>dom := ?marked\<rparr>"
        by simp
      then show ?thesis
        using Inr Some by simp
    qed
  qed
  with split sec post mid show ?thesis
    unfolding list_all_iff by blast
qed


lemma distinct_all_indices: "distinct (all_indices P d)"
  by (simp add: all_indices_def)

lemma all_indices_in_range: "list_all (\<lambda>x. x < length d) (all_indices P d)"
  by (simp add: all_indices_def list_all_iff)

lemma sample_highlight:
  "highlightNavLink sample_engine (bindings_of sample_document) 0 (initial_page sample_document)
     = Normal (initial_page (update_classes 3 (classList_add ''active'') sample_document))"
proof -
  have cleared: "remove_active [3, 4] sample_document = sample_document"
    by (simp add: remove_active_def update_classes_def classList_remove_def sample_document_def
        html_def)
  have home: "sample_document ! 6 = html ''section'' [(''id'', ''home'')] [''fade-in''] 0 600"
    and about: "sample_document ! 7 = html ''section'' [(''id'', ''about'')] [''fade-in''] 600 800"
    by (simp_all add: sample_document_def)
  have found: "first_index (\<lambda>e. is_nav_link e \<and> getAttribute ''href'' e = Some ''#home'')
                 sample_document = Some 3"
    by (simp add: sample_document_def html_def is_nav_link_def classList_contains_def
        getAttribute_def)
  have a: "\<not> in_section 100 (html ''section'' [(''id'', ''about'')] [''fade-in''] 600 800)"
    and h: "in_section 100 (html ''section'' [(''id'', ''home'')] [''fade-in''] 0 600)"
    by (simp_all add: in_section_def html_def)
  have ids: "getAttribute ''id'' (html ''section'' [(''id'', ''home'')] [''fade-in''] 0 600) = Some ''home''"
    by (simp add: getAttribute_def html_def)
  have about': "update_classes 3 (classList_add ''active'') sample_document ! 7
                  = html ''section'' [(''id'', ''about'')] [''fade-in''] 600 800"
    by (simp add: update_classes_def sample_document_def)
  show ?thesis
    by (simp add: highlightNavLink_def sample_bindings Let_def initial_page_def
        home about cleared h a ids js_string_def sample_engine_nav_link plain_home found about')
qed

lemma unlinked_bindings:
  "sections (bindings_of page_with_unlinked_section) = [1, 2]
   \<and> navLinksForHighlight (bindings_of page_with_unlinked_section) = [0]"
  by (simp add: bindings_of_def all_indices_def page_with_unlinked_section_def html_def
      is_section_with_id_def is_nav_link_def classList_contains_def getAttribute_def upt_rec)

text \<open>
  Claim C2, as amended. When \<^verbatim>\<open>highlightNavLink\<close> returns and the offset scroll position
  lies inside at least one section, at most one nav link carries \<^verbatim>\<open>active\<close>. Which one is
  decided at the last such section in document order: the nav links are cleared there,
  and if \<^verbatim>\<open>document.querySelector\<close> finds an element for that section, that element is
  marked. So exactly one nav link carries \<^verbatim>\<open>active\<close> when the element found is a nav
  link, and none does when no element is found.
\<close>

theorem at_most_one_active_link:
  assumes "highlightNavLink qs (bindings_of d) scrollY s = Normal s'"
    and "length (dom s) = length d"
    and "\<exists>sec\<in>set (sections (bindings_of d)). in_section (scrollY + 100) (dom s ! sec)"
  shows "length (active_links (navLinksForHighlight (bindings_of d)) (dom s')) \<le> 1
       \<and> (\<exists>pre sec post mid.
             sections (bindings_of d) = pre @ sec # post
             \<and> in_section (scrollY + 100) (dom s ! sec)
             \<and> list_all (\<lambda>x. \<not> in_section (scrollY + 100) (dom s ! x)) post
             \<and> highlight_sections qs (navLinksForHighlight (bindings_of d)) (scrollY + 100) pre s
                 = Normal mid
             \<and> active_links (navLinksForHighlight (bindings_of d)) (dom s') =
                 (case qs (nav_link_selector (js_string (getAttribute ''id'' (dom s ! sec))))
                         (remove_active (navLinksForHighlight (bindings_of d)) (dom mid)) of
                    Inr (Some activeLink) \<Rightarrow>
                      if activeLink \<in> set (navLinksForHighlight (bindings_of d))
                         \<and> activeLink < length d
                      then [activeLink] else []
                  | _ \<Rightarrow> []))"
proof -
  define links where "links = navLinksForHighlight (bindings_of d)"
  define secs where "secs = sections (bindings_of d)"
  define p where "p = scrollY + 100"
  have distinct: "distinct links"
    by (simp add: links_def bindings_of_def distinct_all_indices)
  have range: "list_all (\<lambda>x. x < length (dom s)) secs"
    using all_indices_in_range [of d is_section_with_id] assms(2)
    by (simp add: secs_def bindings_of_def)
  have ret: "highlight_sections qs links p secs s = Normal s'"
    using assms(1) by (simp add: highlightNavLink_def links_def secs_def p_def)
  have hit: "\<exists>sec\<in>set secs. in_section p (dom s ! sec)"
    using assms(3) by (simp add: secs_def p_def)
  obtain pre sec post mid where split: "secs = pre @ sec # post"
    and sec: "in_section p (dom s ! sec)"
    and post: "list_all (\<lambda>x. \<not> in_section p (dom s ! x)) post"
    and mid: "highlight_sections qs links p pre s = Normal mid"
    and final: "dom s' =
               (case qs (nav_link_selector (js_string (getAttribute ''id'' (dom s ! sec))))
                       (remove_active links (dom mid)) of
                  Inr (Some activeLink) \<Rightarrow>
                    update_classes activeLink (classList_add ''active'')
                      (remove_active links (dom mid))
                | _ \<Rightarrow> remove_active links (dom mid))"
    using highlight_sections_last_hit [OF ret range hit] by blast
  have "map without_active (dom mid) = map without_active (dom s)"
    using highlight_sections_without_active [of qs links p pre s] by (simp add: mid)
  then have len: "length (dom mid) = length d"
    using assms(2) map_eq_imp_length_eq by fastforce
  have active: "active_links links (dom s') =
          (case qs (nav_link_selector (js_string (getAttribute ''id'' (dom s ! sec))))
                  (remove_active links (dom mid)) of
             Inr (Some activeLink) \<Rightarrow>
               if activeLink \<in> set links \<and> activeLink < length d then [activeLink] else []
           | _ \<Rightarrow> [])"
    unfolding final
    by (simp add: active_links_cleared active_links_added [OF distinct] len
        split: sum.splits option.splits)
  then have "length (active_links links (dom s')) \<le> 1"
    by (simp split: sum.splits option.splits)
  with split sec post mid active show ?thesis
    unfolding links_def secs_def p_def by blast
qed


text \<open>On the sample page at the top: the first section holds the position.\<close>

theorem active_link_witness:
  "highlightNavLink sample_engine (bindings_of sample_document) 0 (initial_page sample_document)
     = Normal (initial_page (update_classes 3 (classList_add ''active'') sample_document))
   \<and> length (dom (initial_page sample_document)) = length sample_document
   \<and> 6 \<in> set (sections (bindings_of sample_document))
   \<and> in_section (0 + 100) (dom (initial_page sample_document) ! 6)
   \<and> length (active_links (navLinksForHighlight (bindings_of sample_document))
        (dom (initial_page (update_classes 3 (classList_add ''active'') sample_document)))) \<le> 1"
proof -
  have len: "length (dom (initial_page sample_document)) = length sample_document"
    by (simp add: initial_page_def)
  have sec: "6 \<in> set (sections (bindings_of sample_document))"
    by (simp add: sample_bindings)
  have inside: "in_section (0 + 100) (dom (initial_page sample_document) ! 6)"
    by (simp add: initial_page_def sample_document_def html_def in_section_def)
  from sec inside
  have hit: "\<exists>sec\<in>set (sections (bindings_of sample_document)).
               in_section (0 + 100) (dom (initial_page sample_document) ! sec)" ..
  show ?thesis
    using sample_highlight len sec inside
      at_most_one_active_link [OF sample_highlight len hit, THEN conjunct1]
    by simp
qed

text \<open>There the link to the first section is the one that carries \<^verbatim>\<open>active\<close>.\<close>

lemma sample_active_link:
  "active_links (navLinksForHighlight (bindings_of sample_document))
     (dom (initial_page (update_classes 3 (classList_add ''active'') sample_document))) = [3]"
  by (simp add: sample_bindings active_links_def has_class_add initial_page_def)
    (simp add: has_class_def sample_document_def html_def classList_contains_def)

text \<open>
  The claim as it was stated, exactly one and never zero, fails on a page with a section
  that no nav link points to: with the position inside that section the function
  returns, the link that was active is cleared, and no nav link carries \<^verbatim>\<open>active\<close>.
\<close>

theorem no_active_link_counterexample:
  "highlightNavLink sample_engine (bindings_of page_with_unlinked_section) 600
      (initial_page page_with_unlinked_section)
     = Normal (initial_page (remove_active [0] page_with_unlinked_section))
   \<and> 2 \<in> set (sections (bindings_of page_with_unlinked_section))
   \<and> in_section (600 + 100) (dom (initial_page page_with_unlinked_section) ! 2)
   \<and> has_class ''active'' (dom (initial_page page_with_unlinked_section)) 0
   \<and> active_links (navLinksForHighlight (bindings_of page_with_unlinked_section))
        (dom (initial_page (remove_active [0] page_with_unlinked_section))) = []"
proof -
  let ?d = page_with_unlinked_section
  have home: "?d ! Suc 0 = html ''section'' [(''id'', ''home'')] [] 0 600"
    and contact: "?d ! 2 = html ''section'' [(''id'', ''contact'')] [] 600 400"
    by (simp_all add: page_with_unlinked_section_def)
  have out: "\<not> in_section 700 (html ''section'' [(''id'', ''home'')] [] 0 600)"
    and inside: "in_section 700 (html ''section'' [(''id'', ''contact'')] [] 600 400)"
    by (simp_all add: in_section_def html_def)
  have ident: "getAttribute ''id'' (html ''section'' [(''id'', ''contact'')] [] 600 400) = Some ''contact''"
    by (simp add: getAttribute_def html_def)
  have plain: "plain_name ''contact''"
    by (simp add: plain_name_def)
  have none: "first_index (\<lambda>e. is_nav_link e \<and> getAttribute ''href'' e = Some ''#contact'')
                (remove_active [0] ?d) = None"
    by (simp add: remove_active_def update_classes_def page_with_unlinked_section_def html_def
        getAttribute_def)
  have run: "highlightNavLink sample_engine (bindings_of ?d) 600 (initial_page ?d)
               = Normal (initial_page (remove_active [0] ?d))"
    by (simp add: highlightNavLink_def unlinked_bindings Let_def initial_page_def home contact
        out inside ident js_string_def sample_engine_nav_link plain none)
  have before: "has_class ''active'' (dom (initial_page ?d)) 0"
    by (simp add: has_class_def initial_page_def page_with_unlinked_section_def html_def
        classList_contains_def)
  have after: "active_links (navLinksForHighlight (bindings_of ?d))
                 (dom (initial_page (remove_active [0] ?d))) = []"
    by (simp add: unlinked_bindings initial_page_def active_links_cleared)
  show ?thesis
    using run before after by (simp add: unlinked_bindings initial_page_def contact inside)
qed


section \<open>The observer, entry by entry\<close>















section \<open>The navigation toggle\<close>

lemma toggle_listener_flips:
  assumes "navToggle b = Some t" and "navMenu b = Some m"
    and "t < length (dom s)" and "m < length (dom s)" and "t \<noteq> m"
  shows "has_class ''active'' (dom (run_handler qs b NavToggleClick s)) t
           = (\<not> has_class ''active'' (dom s) t)"
    and "has_class ''active'' (dom (run_handler qs b NavToggleClick s)) m
           = (\<not> has_class ''active'' (dom s) m)"
  using assms
  by (simp_all add: navToggle_click_def has_class_def nth_update_classes contains_toggle)

lemma link_listener_clears:
  assumes "navToggle b = Some t" and "navMenu b = Some m"
  shows "\<not> has_class ''active'' (dom (run_handler qs b (NavLinkClick link) s)) t"
    and "\<not> has_class ''active'' (dom (run_handler qs b (NavLinkClick link) s)) m"
  using assms
  by (auto simp: navLink_click_def has_class_def nth_update_classes contains_remove)

lemma dom_anchor_listener: "dom (run_handler qs b (AnchorClick a) s) = dom s"
  by (simp add: dom_anchor_click)

lemma length_dom_toggle_listener:
  "length (dom (run_handler qs b NavToggleClick s)) = length (dom s)"
  by (simp add: navToggle_click_def split: option.splits)

lemma click_on_link:
  assumes "navToggle b = Some t" and "navMenu b = Some m" and "link \<in> set (navLinks b)"
  shows "\<not> has_class ''active'' (dom (click qs b link s)) t"
    and "\<not> has_class ''active'' (dom (click qs b link s)) m"
proof -
  define s1 where "s1 = (if link = t then run_handler qs b NavToggleClick s else s)"
  have "dom (click qs b link s) = dom (run_handler qs b (NavLinkClick link) s1)"
    using assms
    by (simp add: click_def click_listeners_def run_handlers_def s1_def dom_anchor_listener
        del: run_handler.simps)
  then show "\<not> has_class ''active'' (dom (click qs b link s)) t"
    and "\<not> has_class ''active'' (dom (click qs b link s)) m"
    using link_listener_clears [OF assms(1,2)] by simp_all
qed

lemma click_on_toggle:
  assumes "navToggle b = Some t" and "navMenu b = Some m" and "t \<notin> set (navLinks b)"
  shows "dom (click qs b t s) = dom (run_handler qs b NavToggleClick s)"
  using assms
  by (simp add: click_def click_listeners_def run_handlers_def dom_anchor_listener
      del: run_handler.simps)

lemma toggle_link_bindings:
  "navToggle (bindings_of page_with_toggle_link) = Some 0
   \<and> navMenu (bindings_of page_with_toggle_link) = Some 1
   \<and> navLinks (bindings_of page_with_toggle_link) = [0]
   \<and> smoothScrollLinks (bindings_of page_with_toggle_link) = []"
  by (simp add: bindings_of_def page_with_toggle_link_def html_def getElementById_def has_id_def
      getAttribute_def all_indices_def is_nav_link_def is_hash_anchor_def classList_contains_def
      upt_rec)

text \<open>
  Claim C5, as amended. With the toggle \<open>t\<close> and the menu \<open>m\<close> both found, so that the
  listeners are attached: the click listener of the toggle flips the presence of
  \<^verbatim>\<open>active\<close> on the toggle and on the menu, and the click listener of a nav link leaves
  \<^verbatim>\<open>active\<close> on neither, whatever the classes were before. Of a click that reaches the
  listeners of the element clicked and no others: a click on the toggle flips the class
  on both when the toggle is not a nav link itself; a click on a nav link leaves the
  class on neither, also when that nav link is the toggle.
\<close>

theorem nav_toggle_flips_and_links_clear:
  assumes "navToggle (bindings_of d) = Some t" and "navMenu (bindings_of d) = Some m"
    and "length (dom s) = length d"
  shows "(has_class ''active'' (dom (run_handler qs (bindings_of d) NavToggleClick s)) t
            = (\<not> has_class ''active'' (dom s) t))
       \<and> (has_class ''active'' (dom (run_handler qs (bindings_of d) NavToggleClick s)) m
            = (\<not> has_class ''active'' (dom s) m))
       \<and> \<not> has_class ''active'' (dom (run_handler qs (bindings_of d) (NavLinkClick link) s)) t
       \<and> \<not> has_class ''active'' (dom (run_handler qs (bindings_of d) (NavLinkClick link) s)) m
       \<and> (t \<notin> set (navLinks (bindings_of d)) \<longrightarrow>
            (has_class ''active'' (dom (click qs (bindings_of d) t s)) t
               = (\<not> has_class ''active'' (dom s) t))
            \<and> (has_class ''active'' (dom (click qs (bindings_of d) t s)) m
               = (\<not> has_class ''active'' (dom s) m)))
       \<and> (\<forall>l\<in>set (navLinks (bindings_of d)).
            \<not> has_class ''active'' (dom (click qs (bindings_of d) l s)) t
            \<and> \<not> has_class ''active'' (dom (click qs (bindings_of d) l s)) m)"
proof -
  from assms(1,2) have t: "getElementById ''nav-toggle'' d = Some t"
    and m: "getElementById ''nav-menu'' d = Some m"
    by (simp_all add: bindings_of_def)
  have lt: "t < length (dom s)" "m < length (dom s)"
    using getElementById_Some [OF t] getElementById_Some [OF m] assms(3) by simp_all
  have ne: "t \<noteq> m"
    using getElementById_distinct [OF t m] by simp
  note flips = toggle_listener_flips [OF assms(1,2) lt ne]
  note clears = link_listener_clears [OF assms(1,2)]
  have "has_class ''active'' (dom (click qs (bindings_of d) t s)) t
           = (\<not> has_class ''active'' (dom s) t)
        \<and> has_class ''active'' (dom (click qs (bindings_of d) t s)) m
           = (\<not> has_class ''active'' (dom s) m)"
    if "t \<notin> set (navLinks (bindings_of d))"
    using click_on_toggle [OF assms(1,2) that] flips by simp
  moreover have "\<not> has_class ''active'' (dom (click qs (bindings_of d) l s)) t
        \<and> \<not> has_class ''active'' (dom (click qs (bindings_of d) l s)) m"
    if "l \<in> set (navLinks (bindings_of d))" for l
    using click_on_link [OF assms(1,2) that] by simp
  ultimately show ?thesis
    using flips clears by blast
qed


text \<open>
  On the sample page: a click on the toggle, then a click on the first link, which is a
  same-page anchor as well.
\<close>

theorem nav_toggle_witness:
  "navToggle (bindings_of sample_document) = Some 1 \<and> navMenu (bindings_of sample_document) = Some 2
   \<and> 1 \<notin> set (navLinks (bindings_of sample_document))
   \<and> 3 \<in> set (navLinks (bindings_of sample_document))
   \<and> has_class ''active'' (dom (click sample_engine (bindings_of sample_document) 1
        (initial_page sample_document))) 1
   \<and> has_class ''active'' (dom (click sample_engine (bindings_of sample_document) 1
        (initial_page sample_document))) 2
   \<and> \<not> has_class ''active'' (dom (click sample_engine (bindings_of sample_document) 3
        (click sample_engine (bindings_of sample_document) 1 (initial_page sample_document)))) 1
   \<and> \<not> has_class ''active'' (dom (click sample_engine (bindings_of sample_document) 3
        (click sample_engine (bindings_of sample_document) 1 (initial_page sample_document)))) 2"
proof -
  let ?b = "bindings_of sample_document"
  let ?s = "initial_page sample_document"
  let ?s1 = "click sample_engine ?b 1 ?s"
  have b: "navToggle ?b = Some 1" "navMenu ?b = Some 2"
    and links: "1 \<notin> set (navLinks ?b)" "3 \<in> set (navLinks ?b)"
    by (simp_all add: sample_bindings)
  have c: "\<not> has_class ''active'' (dom ?s) 1" "\<not> has_class ''active'' (dom ?s) 2"
    by (simp_all add: has_class_def initial_page_def sample_document_def html_def
        classList_contains_def)
  have l: "length (dom ?s) = length sample_document"
    by (simp add: initial_page_def)
  have "dom ?s1 = dom (run_handler sample_engine ?b NavToggleClick ?s)"
    using b links(1) by (rule click_on_toggle)
  then have l1: "length (dom ?s1) = length sample_document"
    by (simp only: length_dom_toggle_listener l)
  show ?thesis
    using b links c
      nav_toggle_flips_and_links_clear [OF b l, of sample_engine 3]
      nav_toggle_flips_and_links_clear [OF b l1, of sample_engine 3]
    by blast
qed

text \<open>
  The claim as it was stated, for every click on the toggle, fails on a page whose toggle
  carries the class \<^verbatim>\<open>nav-link\<close>: both listeners are attached to it, a click runs the
  listener of the toggle and then the listener of the link, and \<^verbatim>\<open>active\<close>, absent on the
  toggle and on the menu before the click, is absent after it.
\<close>

theorem toggle_link_counterexample:
  "navToggle (bindings_of page_with_toggle_link) = Some 0
   \<and> navMenu (bindings_of page_with_toggle_link) = Some 1
   \<and> click_listeners (bindings_of page_with_toggle_link) 0 = [NavToggleClick, NavLinkClick 0]
   \<and> attached (bindings_of page_with_toggle_link) True True NavToggleClick
   \<and> attached (bindings_of page_with_toggle_link) True True (NavLinkClick 0)
   \<and> \<not> has_class ''active'' (dom (initial_page page_with_toggle_link)) 0
   \<and> \<not> has_class ''active'' (dom (initial_page page_with_toggle_link)) 1
   \<and> \<not> has_class ''active'' (dom (click sample_engine (bindings_of page_with_toggle_link) 0
          (initial_page page_with_toggle_link))) 0
   \<and> \<not> has_class ''active'' (dom (click sample_engine (bindings_of page_with_toggle_link) 0
          (initial_page page_with_toggle_link))) 1"
proof -
  let ?b = "bindings_of page_with_toggle_link"
  have b: "navToggle ?b = Some 0" "navMenu ?b = Some 1"
    and links: "0 \<in> set (navLinks ?b)"
    by (simp_all add: toggle_link_bindings)
  have before: "\<not> has_class ''active'' (dom (initial_page page_with_toggle_link)) 0"
    "\<not> has_class ''active'' (dom (initial_page page_with_toggle_link)) 1"
    by (simp_all add: has_class_def initial_page_def page_with_toggle_link_def html_def
        classList_contains_def)
  have listeners: "click_listeners ?b 0 = [NavToggleClick, NavLinkClick 0]"
    by (simp add: click_listeners_def toggle_link_bindings)
  show ?thesis
    using b before listeners click_on_link [OF b links, of sample_engine]
    by (simp add: toggle_link_bindings)
qed


end
